theory Spec2Isabelle
  imports Main "HOL-Library.FSet"
begin

section \<open>Strings and characters\<close>

text \<open>
  The engine is written in Python, whose strings are sequences of Unicode code points.
  A string is modelled as the list of its code points (what \<open>ord\<close> returns for each
  character), so that the lambda glyph U+03BB, which the printer of
  \<open>complete_beta_reduction.py\<close> emits, is one character as it is in Python.
\<close>

type_synonym pystr = "nat list"

definition asc :: "string \<Rightarrow> pystr" where
  "asc s = map of_char s"

definition backslash :: nat where
  "backslash = 92"

definition lambda_glyph :: nat where
  "lambda_glyph = 955"

text \<open>
  The character classes of \<open>str.isalpha\<close>, \<open>str.isalnum\<close> and \<open>str.isspace\<close> are
  given exactly on ASCII and on the lambda glyph, which is a lowercase letter of the
  Unicode database; the other code points count as neither letters, digits nor white
  space. The statements about all input strings below use of these classes only that
  the ASCII letters are letters and the ASCII digits are digits.
\<close>

definition isalpha :: "nat \<Rightarrow> bool" where
  "isalpha c = ((65 \<le> c \<and> c \<le> 90) \<or> (97 \<le> c \<and> c \<le> 122) \<or> c = 955)"

definition isdigit :: "nat \<Rightarrow> bool" where
  "isdigit c = (48 \<le> c \<and> c \<le> 57)"

definition isalnum :: "nat \<Rightarrow> bool" where
  "isalnum c = (isalpha c \<or> isdigit c)"

definition isspace :: "nat \<Rightarrow> bool" where
  "isspace c = ((9 \<le> c \<and> c \<le> 13) \<or> (28 \<le> c \<and> c \<le> 32))"

text \<open>\<open>str(n)\<close> for a non-negative integer: its decimal digits.\<close>

fun str_nat :: "nat \<Rightarrow> pystr" where
  "str_nat n = (if n < 10 then [48 + n] else str_nat (n div 10) @ [48 + n mod 10])"

declare str_nat.simps [simp del]

section \<open>Terms\<close>

text \<open>
  Both modules declare the same three dataclasses. \<open>Variable\<close> compares and hashes by
  its name, so a \<open>Lambda\<close>'s parameter is represented by the name of its \<open>Variable\<close>
  and a Python set of \<open>Variable\<close>s by a finite set of names. The field \<open>function\<close> of
  an \<open>Application\<close> is the selector \<open>func\<close>.
\<close>

datatype Term =
    Variable (name: pystr)
  | Lambda (parameter: pystr) (body: Term)
  | Application (func: Term) (argument: Term)

text \<open>The tests \<open>isinstance(t, Lambda)\<close> and \<open>isinstance(t, Application)\<close>.\<close>

fun is_Lambda :: "Term \<Rightarrow> bool" where
  "is_Lambda (Lambda p b) = True"
| "is_Lambda t = False"

fun is_Application :: "Term \<Rightarrow> bool" where
  "is_Application (Application f a) = True"
| "is_Application t = False"

datatype ReductionStrategy = NORMAL_ORDER | APPLICATIVE_ORDER | CALL_BY_NAME | CALL_BY_VALUE

fun strategy_value :: "ReductionStrategy \<Rightarrow> pystr" where
  "strategy_value NORMAL_ORDER = asc ''normal_order''"
| "strategy_value APPLICATIVE_ORDER = asc ''applicative_order''"
| "strategy_value CALL_BY_NAME = asc ''call_by_name''"
| "strategy_value CALL_BY_VALUE = asc ''call_by_value''"

section \<open>The reducer of complete\_beta\_reduction.py\<close>

subsection \<open>Free and bound variables\<close>

fun free_variables :: "Term \<Rightarrow> pystr fset" where
  "free_variables (Variable v) = {|v|}"
| "free_variables (Application f a) = free_variables f |\<union>| free_variables a"
| "free_variables (Lambda p b) = free_variables b |-| {|p|}"

fun bound_variables :: "Term \<Rightarrow> pystr fset" where
  "bound_variables (Variable v) = {||}"
| "bound_variables (Application f a) = bound_variables f |\<union>| bound_variables a"
| "bound_variables (Lambda p b) = {|p|} |\<union>| bound_variables b"

subsection \<open>Fresh names\<close>

definition letters :: "pystr list" where
  "letters = map (\<lambda>c. [c]) (asc ''abcdefghijklmnopqrstuvwxyz'')"

text \<open>The \<open>for\<close> loop over the single letters: the first one not to avoid, if any.\<close>

fun first_free_letter :: "pystr list \<Rightarrow> pystr fset \<Rightarrow> pystr option" where
  "first_free_letter [] avoid_names = None"
| "first_free_letter (c # cs) avoid_names =
     (if c |\<notin>| avoid_names then Some c else first_free_letter cs avoid_names)"

lemma str_nat_nonempty: "str_nat n \<noteq> []"
  by (subst str_nat.simps) simp

lemma str_nat_inj: "str_nat n = str_nat m \<Longrightarrow> n = m"
proof (induction n arbitrary: m rule: str_nat.induct)
  case (1 n)
  show ?case
  proof (cases "n < 10")
    case small: True
    show ?thesis
    proof (cases "m < 10")
      case True
      with small "1.prems" show ?thesis
        by (simp add: str_nat.simps [of n] str_nat.simps [of m])
    next
      case False
      with small "1.prems" str_nat_nonempty [of "m div 10"] show ?thesis
        by (simp add: str_nat.simps [of n] str_nat.simps [of m] Cons_eq_append_conv)
    qed
  next
    case big: False
    show ?thesis
    proof (cases "m < 10")
      case True
      with big "1.prems" str_nat_nonempty [of "n div 10"] show ?thesis
        by (simp add: str_nat.simps [of n] str_nat.simps [of m] append_eq_Cons_conv)
    next
      case False
      with big "1.prems" have "str_nat (n div 10) = str_nat (m div 10)" and "n mod 10 = m mod 10"
        by (simp_all add: str_nat.simps [of n] str_nat.simps [of m])
      with "1.IH" big have "n div 10 = m div 10" by simp
      with \<open>n mod 10 = m mod 10\<close> show ?thesis
        by (metis div_mult_mod_eq)
    qed
  qed
qed

definition numbered :: "nat \<Rightarrow> pystr" where
  "numbered counter = asc ''x'' @ str_nat counter"

lemma inj_numbered: "inj numbered"
  by (rule injI) (simp add: numbered_def str_nat_inj)

lemma finite_numbered_in: "finite {k. numbered k |\<in>| A}"
proof -
  have "finite (numbered -` fset A)"
    by (rule finite_vimageI [OF finite_fset inj_numbered])
  then show ?thesis by (simp add: vimage_def)
qed

text \<open>The \<open>while True\<close> loop over \<open>x0\<close>, \<open>x1\<close>, ...\<close>

function first_free_numbered :: "pystr fset \<Rightarrow> nat \<Rightarrow> pystr" where
  "first_free_numbered avoid_names counter =
     (let name = numbered counter
      in if name |\<notin>| avoid_names then name
         else first_free_numbered avoid_names (counter + 1))"
  by pat_completeness auto
termination
proof (relation "measure (\<lambda>(A, c). card {k. c \<le> k \<and> numbered k |\<in>| A})")
  show "wf (measure (\<lambda>(A, c). card {k. c \<le> k \<and> numbered k |\<in>| A}))" by simp
next
  fix avoid_names :: "pystr fset" and counter :: nat and name :: pystr
  assume name: "name = numbered counter" and "\<not> name |\<notin>| avoid_names"
  then have mem: "numbered counter |\<in>| avoid_names" by simp
  have fin: "finite {k. counter \<le> k \<and> numbered k |\<in>| avoid_names}"
    by (rule finite_subset [OF _ finite_numbered_in [of avoid_names]]) auto
  have "counter \<in> {k. counter \<le> k \<and> numbered k |\<in>| avoid_names}"
    and "counter \<notin> {k. counter + 1 \<le> k \<and> numbered k |\<in>| avoid_names}"
    and "{k. counter + 1 \<le> k \<and> numbered k |\<in>| avoid_names}
          \<subseteq> {k. counter \<le> k \<and> numbered k |\<in>| avoid_names}"
    using mem by auto
  then have "{k. counter + 1 \<le> k \<and> numbered k |\<in>| avoid_names}
          \<subset> {k. counter \<le> k \<and> numbered k |\<in>| avoid_names}"
    by blast
  then have "card {k. counter + 1 \<le> k \<and> numbered k |\<in>| avoid_names}
          < card {k. counter \<le> k \<and> numbered k |\<in>| avoid_names}"
    by (rule psubset_card_mono [OF fin])
  then show "((avoid_names, counter + 1), (avoid_names, counter))
          \<in> measure (\<lambda>(A, c). card {k. c \<le> k \<and> numbered k |\<in>| A})"
    by simp
qed

declare first_free_numbered.simps [simp del]

definition generate_fresh_variable :: "pystr fset \<Rightarrow> pystr" where
  "generate_fresh_variable avoid_names =
     (case first_free_letter letters avoid_names of
        Some c \<Rightarrow> c
      | None \<Rightarrow> first_free_numbered avoid_names 0)"

subsection \<open>Substitution\<close>

function substitute :: "Term \<Rightarrow> pystr \<Rightarrow> Term \<Rightarrow> Term" where
  "substitute (Variable v) var replacement = (if v = var then replacement else Variable v)"
| "substitute (Application f a) var replacement =
     Application (substitute f var replacement) (substitute a var replacement)"
| "substitute (Lambda p b) var replacement =
     (if p = var then Lambda p b
      else if p |\<in>| free_variables replacement then
        (let new_param = generate_fresh_variable
               (free_variables b |\<union>| free_variables replacement |\<union>| {|var|});
             alpha_converted_body = substitute b p (Variable new_param);
             new_body = substitute alpha_converted_body var replacement
         in Lambda new_param new_body)
      else Lambda p (substitute b var replacement))"
  by pat_completeness auto

lemma substitute_size_partial:
  "substitute_dom (t, var, r) \<Longrightarrow> (\<exists>y. r = Variable y) \<Longrightarrow> size (substitute t var r) = size t"
proof (induction t var r rule: substitute.pinduct)
  case (1 v var replacement)
  then show ?case by (auto simp: substitute.psimps)
next
  case (2 f a var replacement)
  then show ?case by (simp add: substitute.psimps)
next
  case (3 p b var replacement)
  then show ?case by (simp add: substitute.psimps Let_def)
qed

termination substitute
proof (relation "measure (\<lambda>(t, var, r). size t)", goal_cases)
  case (5 p b var replacement new_param alpha_converted_body)
  then show ?case by (simp add: substitute_size_partial)
qed simp_all


subsection \<open>Printing\<close>

text \<open>
  \<open>__str__\<close> of the three classes in \<open>complete_beta_reduction.py\<close>: the function of
  an application is put in parentheses when it is an application, the argument when it
  is an abstraction or an application.
\<close>

fun str_term :: "Term \<Rightarrow> pystr" where
  "str_term (Variable v) = v"
| "str_term (Lambda p b) = [lambda_glyph] @ p @ asc ''.'' @ str_term b"
| "str_term (Application f a) =
     (let func_str = str_term f;
          arg_str = str_term a;
          func_str = (if is_Application f then asc ''('' @ func_str @ asc '')'' else func_str);
          arg_str = (if is_Lambda a \<or> is_Application a
                     then asc ''('' @ arg_str @ asc '')'' else arg_str)
      in func_str @ asc '' '' @ arg_str)"

subsection \<open>Finding and contracting a redex\<close>

text \<open>The path elements \<open>"function"\<close>, \<open>"argument"\<close> and \<open>"body"\<close>.\<close>

datatype direction = Function | Argument | Body

record redex_info =
  redex_type :: pystr
  redex_path :: "direction list"
  redex_function :: Term
  redex_argument :: Term
  redex_parameter :: pystr
  redex_body :: Term

fun find_leftmost_outermost_redex :: "Term \<Rightarrow> direction list \<Rightarrow> redex_info option" where
  "find_leftmost_outermost_redex (Application f a) path =
     (if is_Lambda f then
        Some \<lparr>redex_type = asc ''beta_redex'', redex_path = path, redex_function = f,
              redex_argument = a, redex_parameter = parameter f, redex_body = body f\<rparr>
      else (case find_leftmost_outermost_redex f (path @ [Function]) of
              Some func_redex \<Rightarrow> Some func_redex
            | None \<Rightarrow> find_leftmost_outermost_redex a (path @ [Argument])))"
| "find_leftmost_outermost_redex (Lambda p b) path =
     find_leftmost_outermost_redex b (path @ [Body])"
| "find_leftmost_outermost_redex (Variable v) path = None"

fun find_leftmost_innermost_redex :: "Term \<Rightarrow> direction list \<Rightarrow> redex_info option" where
  "find_leftmost_innermost_redex (Application f a) path =
     (case find_leftmost_innermost_redex f (path @ [Function]) of
        Some func_redex \<Rightarrow> Some func_redex
      | None \<Rightarrow>
         (case find_leftmost_innermost_redex a (path @ [Argument]) of
            Some arg_redex \<Rightarrow> Some arg_redex
          | None \<Rightarrow>
             (if is_Lambda f then
                Some \<lparr>redex_type = asc ''beta_redex'', redex_path = path, redex_function = f,
                      redex_argument = a, redex_parameter = parameter f, redex_body = body f\<rparr>
              else None)))"
| "find_leftmost_innermost_redex (Lambda p b) path =
     find_leftmost_innermost_redex b (path @ [Body])"
| "find_leftmost_innermost_redex (Variable v) path = None"

fun find_redex :: "ReductionStrategy \<Rightarrow> Term \<Rightarrow> redex_info option" where
  "find_redex NORMAL_ORDER t = find_leftmost_outermost_redex t []"
| "find_redex APPLICATIVE_ORDER t = find_leftmost_innermost_redex t []"
| "find_redex s t = find_leftmost_outermost_redex t []"

definition perform_beta_reduction :: "Term \<Rightarrow> Term \<Rightarrow> Term" where
  "perform_beta_reduction lambda_term arg = substitute (body lambda_term) (parameter lambda_term) arg"

fun replace_at_path :: "Term \<Rightarrow> direction list \<Rightarrow> (Term \<Rightarrow> Term) \<Rightarrow> Term" where
  "replace_at_path t [] replacer = replacer t"
| "replace_at_path (Application f a) (Function # remaining_path) replacer =
     Application (replace_at_path f remaining_path replacer) a"
| "replace_at_path (Application f a) (Argument # remaining_path) replacer =
     Application f (replace_at_path a remaining_path replacer)"
| "replace_at_path (Lambda p b) (Body # remaining_path) replacer =
     Lambda p (replace_at_path b remaining_path replacer)"
| "replace_at_path t (d # remaining_path) replacer = t"

definition reduce_redex :: "Term \<Rightarrow> redex_info \<Rightarrow> Term" where
  "reduce_redex t info =
     (if redex_path info = [] then
        perform_beta_reduction (redex_function info) (redex_argument info)
      else replace_at_path t (redex_path info)
             (\<lambda>app. perform_beta_reduction (redex_function info) (redex_argument info)))"

subsection \<open>Classifying the result\<close>

definition remove_spaces :: "pystr \<Rightarrow> pystr" where
  "remove_spaces s = filter (\<lambda>c. c \<noteq> 32) s"

definition terms_equivalent :: "pystr \<Rightarrow> pystr \<Rightarrow> bool" where
  "terms_equivalent term1 term2 = (term1 = term2)"

text \<open>The table of \<open>_identify_combinator\<close>, in the order of the dictionary literal.\<close>

definition combinators :: "(pystr \<times> pystr) list" where
  "combinators =
    [(lambda_glyph # asc ''x.x'', asc ''I (Identity)''),
     (lambda_glyph # asc ''x.'' @ lambda_glyph # asc ''y.x'', asc ''K (Constant)''),
     (lambda_glyph # asc ''x.'' @ lambda_glyph # asc ''y.y'', asc ''KI (False)''),
     (lambda_glyph # asc ''x.'' @ lambda_glyph # asc ''y.'' @ lambda_glyph # asc ''z.xz(yz)'',
        asc ''S (Substitution)''),
     (lambda_glyph # asc ''f.'' @ lambda_glyph # asc ''g.'' @ lambda_glyph # asc ''x.f(gx)'',
        asc ''B (Composition)''),
     (lambda_glyph # asc ''f.('' @ lambda_glyph # asc ''x.f(xx))('' @ lambda_glyph # asc ''x.f(xx))'',
        asc ''Y (Fixed-point)''),
     (lambda_glyph # asc ''f.'' @ lambda_glyph # asc ''x.f(fx)'', asc ''Church 2''),
     (lambda_glyph # asc ''f.'' @ lambda_glyph # asc ''x.x'', asc ''Church 0''),
     (lambda_glyph # asc ''f.'' @ lambda_glyph # asc ''x.fx'', asc ''Church 1'')]"

text \<open>The loop over the items of the table: the name of the first pattern that matches.\<close>

fun first_equivalent :: "pystr \<Rightarrow> (pystr \<times> pystr) list \<Rightarrow> pystr option" where
  "first_equivalent term_str [] = None"
| "first_equivalent term_str ((pattern, nm) # items) =
     (if terms_equivalent term_str (remove_spaces pattern) then Some nm
      else first_equivalent term_str items)"

definition identify_combinator :: "Term \<Rightarrow> pystr option" where
  "identify_combinator t = first_equivalent (remove_spaces (str_term t)) combinators"

fun count_lambdas :: "Term \<Rightarrow> int" where
  "count_lambdas (Variable v) = 0"
| "count_lambdas (Lambda p b) = 1 + count_lambdas b"
| "count_lambdas (Application f a) = count_lambdas f + count_lambdas a"

text \<open>
  The lists that \<open>_analyze_result\<close> and the trace build from sets of variables have no
  specified order; they are kept as the finite sets they come from.
\<close>

record analysis =
  term_type :: pystr
  analysis_free_variables :: "pystr fset"
  analysis_bound_variables :: "pystr fset"
  lambda_count :: int
  is_closed :: bool
  combinator :: "pystr option"
  complexity :: int

definition analyze_result :: "Term \<Rightarrow> analysis" where
  "analyze_result t =
     (let free_vars = free_variables t;
          bound_vars = bound_variables t;
          term_type = (case t of
              Variable v \<Rightarrow> asc ''variable''
            | Lambda p b \<Rightarrow> if free_vars = {||} then asc ''closed_lambda'' else asc ''open_lambda''
            | Application f a \<Rightarrow> asc ''application'')
      in \<lparr>term_type = term_type,
          analysis_free_variables = free_vars,
          analysis_bound_variables = bound_vars,
          lambda_count = count_lambdas t,
          is_closed = (fcard free_vars = 0),
          combinator = identify_combinator t,
          complexity = int (length (str_term t))\<rparr>)"

subsection \<open>The reduction loop\<close>

record 'r reduction_step =
  step :: int
  step_term :: pystr
  action :: pystr
  redex :: "'r option"
  step_free_variables :: "pystr fset"
  step_bound_variables :: "pystr fset"

text \<open>
  The stagnation test made after a step: \<open>step_count > 2\<close> and the printed terms of
  the last three recorded steps are one and the same string.
\<close>

definition stagnated :: "int \<Rightarrow> 'r reduction_step list \<Rightarrow> bool" where
  "stagnated step_count steps =
     (step_count > 2 \<and>
      (let recent_terms = map step_term (drop (length steps - 3) steps)
       in card (set recent_terms) = 1))"

function reduce_loop ::
  "ReductionStrategy \<Rightarrow> int \<Rightarrow> Term \<Rightarrow> int \<Rightarrow> redex_info reduction_step list
     \<Rightarrow> Term \<times> int \<times> redex_info reduction_step list" where
  "reduce_loop strategy max_steps current_term step_count steps =
     (if step_count < max_steps then
        (case find_redex strategy current_term of
           None \<Rightarrow> (current_term, step_count, steps)
         | Some info \<Rightarrow>
            (let new_term = reduce_redex current_term info;
                 step_count' = step_count + 1;
                 steps' = steps @
                   [\<lparr>step = step_count', step_term = str_term new_term,
                     action = asc ''beta_reduction'', redex = Some info,
                     step_free_variables = free_variables new_term,
                     step_bound_variables = bound_variables new_term\<rparr>]
             in if stagnated step_count' steps' then (new_term, step_count', steps')
                else reduce_loop strategy max_steps new_term step_count' steps'))
      else (current_term, step_count, steps))"
  by pat_completeness auto
termination
  by (relation "measure (\<lambda>(strategy, max_steps, current_term, step_count, steps).
        nat (max_steps - step_count))") auto

declare reduce_loop.simps [simp del]

record reduction_result =
  original_term :: pystr
  final_term :: pystr
  is_normal_form :: bool
  steps_taken :: int
  max_steps_reached :: bool
  strategy_used :: pystr
  reduction_steps :: "redex_info reduction_step list"
  result_analysis :: analysis

definition reduce :: "ReductionStrategy \<Rightarrow> Term \<Rightarrow> int \<Rightarrow> reduction_result" where
  "reduce strategy t max_steps =
     (let initial =
            \<lparr>step = 0, step_term = str_term t, action = asc ''initial'', redex = None,
             step_free_variables = free_variables t,
             step_bound_variables = bound_variables t\<rparr>;
          (current_term, step_count, steps) = reduce_loop strategy max_steps t 0 [initial]
      in \<lparr>original_term = str_term t,
          final_term = str_term current_term,
          is_normal_form = (find_redex strategy current_term = None),
          steps_taken = step_count,
          max_steps_reached = (step_count \<ge> max_steps),
          strategy_used = strategy_value strategy,
          reduction_steps = steps,
          result_analysis = analyze_result current_term\<rparr>)"


section \<open>The parser of complete\_beta\_reduction.py\<close>

text \<open>
  \<open>LambdaParser\<close> reads the characters of the text itself, with no token list. Its
  functions carry the prefix \<open>lp_\<close>, since \<open>CorrectLambdaParser\<close> has functions of the
  same names.
\<close>

text \<open>
  The \<open>ValueError\<close>s of \<open>LambdaParser\<close>, one constructor for each message; \<open>parse\<close>
  re-raises each of them as a \<open>ValueError\<close> whose message starts with "Parse error".
\<close>

datatype lp_error =
    Unexpected_character_at nat nat
  | Lp_unexpected_end_of_input
  | Unexpected_character nat
  | Expected_parameter_after_lambda
  | Lp_expected_dot
  | Lp_expected_closing_parenthesis
  | Lp_expected_variable_name

text \<open>
  A name is a letter followed by the longest run of letters, digits and underscores.
\<close>

definition lp_parse_variable_name :: "pystr \<Rightarrow> nat \<Rightarrow> lp_error + (pystr \<times> nat)" where
  "lp_parse_variable_name text position =
     (if position \<ge> length text \<or> \<not> isalpha (text ! position) then Inl Lp_expected_variable_name
      else let rest = takeWhile (\<lambda>c. isalnum c \<or> c = 95) (drop (position + 1) text)
           in Inr (text ! position # rest, position + 1 + length rest))"

definition lp_parse_variable :: "pystr \<Rightarrow> nat \<Rightarrow> lp_error + (Term \<times> nat)" where
  "lp_parse_variable text position =
     (case lp_parse_variable_name text position of
        Inl e \<Rightarrow> Inl e
      | Inr (nm, position') \<Rightarrow> Inr (Variable nm, position'))"

function lp_parse_term :: "pystr \<Rightarrow> nat \<Rightarrow> lp_error + (Term \<times> nat)"
  and lp_parse_application :: "pystr \<Rightarrow> nat \<Rightarrow> lp_error + (Term \<times> nat)"
  and lp_parse_application_loop :: "pystr \<Rightarrow> Term \<Rightarrow> nat \<Rightarrow> lp_error + (Term \<times> nat)"
  and lp_parse_atom :: "pystr \<Rightarrow> nat \<Rightarrow> lp_error + (Term \<times> nat)"
  and lp_parse_lambda :: "pystr \<Rightarrow> nat \<Rightarrow> lp_error + (Term \<times> nat)"
  and lp_parse_parentheses :: "pystr \<Rightarrow> nat \<Rightarrow> lp_error + (Term \<times> nat)"
where
  "lp_parse_term text position = lp_parse_application text position"
| "lp_parse_application text position =
     (case lp_parse_atom text position of
        Inl e \<Rightarrow> Inl e
      | Inr (left, position') \<Rightarrow> lp_parse_application_loop text left position')"
| "lp_parse_application_loop text left position =
     (if position < length text \<and> text ! position \<noteq> 41 then
        (case lp_parse_atom text position of
           Inl e \<Rightarrow> Inl e
         | Inr (right, position') \<Rightarrow>
             lp_parse_application_loop text (Application left right) position')
      else Inr (left, position))"
| "lp_parse_atom text position =
     (if position \<ge> length text then Inl Lp_unexpected_end_of_input
      else let char = text ! position
           in if char = lambda_glyph \<or> char = backslash then lp_parse_lambda text position
              else if char = 40 then lp_parse_parentheses text position
              else if isalpha char then lp_parse_variable text position
              else Inl (Unexpected_character char))"
| "lp_parse_lambda text position =
     (let position = position + 1
      in if position \<ge> length text then Inl Expected_parameter_after_lambda
         else (case lp_parse_variable_name text position of
                 Inl e \<Rightarrow> Inl e
               | Inr (param_name, position) \<Rightarrow>
                   if position \<ge> length text \<or> text ! position \<noteq> 46 then Inl Lp_expected_dot
                   else (case lp_parse_term text (position + 1) of
                           Inl e \<Rightarrow> Inl e
                         | Inr (bdy, position) \<Rightarrow> Inr (Lambda param_name bdy, position))))"
| "lp_parse_parentheses text position =
     (let position = position + 1
      in (case lp_parse_term text position of
            Inl e \<Rightarrow> Inl e
          | Inr (t, position) \<Rightarrow>
              if position \<ge> length text \<or> text ! position \<noteq> 41
              then Inl Lp_expected_closing_parenthesis
              else Inr (t, position + 1)))"
  by pat_completeness auto

text \<open>Termination, as for the other parser: a successful call moves the position on.\<close>

lemma lp_parse_variable_name_progress:
  "lp_parse_variable_name text position = Inr (nm, position') \<Longrightarrow>
   position < position' \<and> position < length text"
  by (auto simp: lp_parse_variable_name_def Let_def split: if_splits)

lemma lp_parse_progress:
  "lp_parse_term_lp_parse_application_lp_parse_application_loop_lp_parse_atom_lp_parse_lambda_lp_parse_parentheses_dom
      (Inl (Inl (text, position))) \<Longrightarrow>
   \<forall>t position'. lp_parse_term text position = Inr (t, position')
      \<longrightarrow> position < position' \<and> position < length text"
  "lp_parse_term_lp_parse_application_lp_parse_application_loop_lp_parse_atom_lp_parse_lambda_lp_parse_parentheses_dom
      (Inl (Inr (Inl (text, position)))) \<Longrightarrow>
   \<forall>t position'. lp_parse_application text position = Inr (t, position')
      \<longrightarrow> position < position' \<and> position < length text"
  "lp_parse_term_lp_parse_application_lp_parse_application_loop_lp_parse_atom_lp_parse_lambda_lp_parse_parentheses_dom
      (Inl (Inr (Inr (text, left, position)))) \<Longrightarrow>
   \<forall>t position'. lp_parse_application_loop text left position = Inr (t, position')
      \<longrightarrow> position \<le> position'"
  "lp_parse_term_lp_parse_application_lp_parse_application_loop_lp_parse_atom_lp_parse_lambda_lp_parse_parentheses_dom
      (Inr (Inl (text, position))) \<Longrightarrow>
   \<forall>t position'. lp_parse_atom text position = Inr (t, position')
      \<longrightarrow> position < position' \<and> position < length text"
  "lp_parse_term_lp_parse_application_lp_parse_application_loop_lp_parse_atom_lp_parse_lambda_lp_parse_parentheses_dom
      (Inr (Inr (Inl (text, position)))) \<Longrightarrow>
   \<forall>t position'. lp_parse_lambda text position = Inr (t, position')
      \<longrightarrow> position < position'"
  "lp_parse_term_lp_parse_application_lp_parse_application_loop_lp_parse_atom_lp_parse_lambda_lp_parse_parentheses_dom
      (Inr (Inr (Inr (text, position)))) \<Longrightarrow>
   \<forall>t position'. lp_parse_parentheses text position = Inr (t, position')
      \<longrightarrow> position < position'"
proof (induct rule:
    lp_parse_term_lp_parse_application_lp_parse_application_loop_lp_parse_atom_lp_parse_lambda_lp_parse_parentheses.pinduct)
  case (1 src position)
  then show ?case by (simp add: lp_parse_term.psimps)
next
  case (2 src position)
  show ?case
  proof (intro allI impI)
    fix t position'
    assume res: "lp_parse_application src position = Inr (t, position')"
    show "position < position' \<and> position < length src"
    proof (cases "lp_parse_atom src position")
      case (Inl e)
      with res "2.hyps"(1) show ?thesis by (simp add: lp_parse_application.psimps)
    next
      case (Inr b)
      obtain left p1 where b: "b = (left, p1)" by (cases b)
      from Inr b res "2.hyps"(1) have "lp_parse_application_loop src left p1 = Inr (t, position')"
        by (simp add: lp_parse_application.psimps)
      with "2.hyps"(3) [OF Inr b [symmetric]] have "p1 \<le> position'" by blast
      moreover from "2.hyps"(2) Inr b have "position < p1 \<and> position < length src" by blast
      ultimately show ?thesis by simp
    qed
  qed
next
  case (3 src left position)
  show ?case
  proof (intro allI impI)
    fix t position'
    assume res: "lp_parse_application_loop src left position = Inr (t, position')"
    show "position \<le> position'"
    proof (cases "position < length src \<and> src ! position \<noteq> 41")
      case False
      with res "3.hyps"(1) show ?thesis by (auto simp add: lp_parse_application_loop.psimps)
    next
      case guard: True
      show ?thesis
      proof (cases "lp_parse_atom src position")
        case (Inl e)
        with res guard "3.hyps"(1) show ?thesis by (simp add: lp_parse_application_loop.psimps)
      next
        case (Inr b)
        obtain right p1 where b: "b = (right, p1)" by (cases b)
        from Inr b res guard "3.hyps"(1)
        have "lp_parse_application_loop src (Application left right) p1 = Inr (t, position')"
          by (simp add: lp_parse_application_loop.psimps)
        with "3.hyps"(3) [OF guard Inr b [symmetric]] have "p1 \<le> position'" by blast
        moreover from "3.hyps"(2) [OF guard] Inr b have "position < p1" by blast
        ultimately show ?thesis by simp
      qed
    qed
  qed
next
  case (4 src position)
  show ?case
  proof (intro allI impI)
    fix t position'
    assume res: "lp_parse_atom src position = Inr (t, position')"
    then have lt: "\<not> length src \<le> position"
      using "4.hyps"(1) by (auto simp add: lp_parse_atom.psimps)
    consider (lam) "src ! position = lambda_glyph \<or> src ! position = backslash"
      | (par) "\<not> (src ! position = lambda_glyph \<or> src ! position = backslash)"
          "src ! position = 40"
      | (var) "\<not> (src ! position = lambda_glyph \<or> src ! position = backslash)"
          "src ! position \<noteq> 40"
      by blast
    then show "position < position' \<and> position < length src"
    proof cases
      case lam
      with res lt "4.hyps"(1) have "lp_parse_lambda src position = Inr (t, position')"
        by (simp add: lp_parse_atom.psimps)
      with "4.hyps"(2) [OF lt refl lam] lt show ?thesis by auto
    next
      case par
      with res lt "4.hyps"(1) have "lp_parse_parentheses src position = Inr (t, position')"
        by (simp add: lp_parse_atom.psimps)
      with "4.hyps"(3) [OF lt refl par] lt show ?thesis by auto
    next
      case var
      with res lt "4.hyps"(1) have "lp_parse_variable src position = Inr (t, position')"
        by (simp add: lp_parse_atom.psimps Let_def split: if_splits)
      then show ?thesis
        by (auto simp: lp_parse_variable_def split: sum.splits dest: lp_parse_variable_name_progress)
    qed
  qed
next
  case (5 src position)
  show ?case
  proof (intro allI impI)
    fix t position'
    assume res: "lp_parse_lambda src position = Inr (t, position')"
    with "5.hyps"(1) have lt: "\<not> length src \<le> position + 1"
      by (auto simp add: lp_parse_lambda.psimps Let_def split: if_splits)
    show "position < position'"
    proof (cases "lp_parse_variable_name src (position + 1)")
      case (Inl e)
      with res lt "5.hyps"(1) show ?thesis by (simp add: lp_parse_lambda.psimps)
    next
      case (Inr b)
      obtain nm p1 where b: "b = (nm, p1)" by (cases b)
      from Inr b have p1: "position + 1 < p1"
        using lp_parse_variable_name_progress [of src "position + 1" nm p1] by simp
      from res lt Inr b "5.hyps"(1) have dot: "\<not> (length src \<le> p1 \<or> src ! p1 \<noteq> 46)"
        by (auto simp add: lp_parse_lambda.psimps split: if_splits)
      show ?thesis
      proof (cases "lp_parse_term src (p1 + 1)")
        case (Inl e)
        with res lt Inr b dot "5.hyps"(1) show ?thesis by (simp add: lp_parse_lambda.psimps)
      next
        case inner: (Inr c)
        obtain bdy p2 where c: "c = (bdy, p2)" by (cases c)
        from res lt Inr b dot inner c "5.hyps"(1) have "position' = p2"
          by (simp add: lp_parse_lambda.psimps)
        moreover from "5.hyps"(2) [OF refl lt Inr b [symmetric] dot] inner c
        have "p1 + 1 < p2" by blast
        ultimately show ?thesis using p1 by simp
      qed
    qed
  qed
next
  case (6 src position)
  show ?case
  proof (intro allI impI)
    fix t position'
    assume res: "lp_parse_parentheses src position = Inr (t, position')"
    show "position < position'"
    proof (cases "lp_parse_term src (position + 1)")
      case (Inl e)
      with res "6.hyps"(1) show ?thesis by (simp add: lp_parse_parentheses.psimps)
    next
      case (Inr c)
      obtain bdy p2 where c: "c = (bdy, p2)" by (cases c)
      from res Inr c "6.hyps"(1) have "position' = p2 + 1"
        by (auto simp add: lp_parse_parentheses.psimps split: if_splits)
      moreover from "6.hyps"(2) [OF refl] Inr c have "position + 1 < p2" by blast
      ultimately show ?thesis by simp
    qed
  qed
qed

termination lp_parse_term
proof (relation "measure (\<lambda>x.
    case x of
      Inl (Inl (src, position)) \<Rightarrow> 10 * (length src - position) + 5
    | Inl (Inr (Inl (src, position))) \<Rightarrow> 10 * (length src - position) + 4
    | Inl (Inr (Inr (src, left, position))) \<Rightarrow> 10 * (length src - position) + 3
    | Inr (Inl (src, position)) \<Rightarrow> 10 * (length src - position) + 2
    | Inr (Inr (Inl (src, position))) \<Rightarrow>
        10 * (length src - position) + (if position < length src then 1 else 9)
    | Inr (Inr (Inr (src, position))) \<Rightarrow>
        10 * (length src - position) + (if position < length src then 1 else 9))",
    goal_cases)
  case (4 src position b x y)
  from lp_parse_progress(4) [OF 4(3)] 4(1,2) have "position < y \<and> position < length src"
    by (metis)
  then show ?case by auto
next
  case (6 src left position b x y)
  from lp_parse_progress(4) [OF 6(4)] 6(2,3) have "position < y \<and> position < length src"
    by (metis)
  then show ?case by auto
next
  case (9 src position x b xa y)
  from lp_parse_variable_name_progress [of src x xa y] 9 have "position + 1 < y" by simp
  with 9 show ?case by auto
qed auto

declare lp_parse_term.simps [simp del] lp_parse_application.simps [simp del]
  lp_parse_application_loop.simps [simp del] lp_parse_atom.simps [simp del]
  lp_parse_lambda.simps [simp del] lp_parse_parentheses.simps [simp del]

text \<open>\<open>parse\<close> removes every space from the expression before it reads it.\<close>

definition lp_parse :: "pystr \<Rightarrow> lp_error + Term" where
  "lp_parse expression =
     (let text = filter (\<lambda>c. c \<noteq> 32) expression
      in (case lp_parse_term text 0 of
            Inl e \<Rightarrow> Inl e
          | Inr (result, position) \<Rightarrow>
              if position < length text
              then Inl (Unexpected_character_at position (text ! position))
              else Inr result))"

section \<open>The parser and reducer of correct\_lambda\_parser.py\<close>

text \<open>
  The names of \<open>CorrectLambdaParser\<close> are kept as they are; those of
  \<open>CorrectBetaReducer\<close> that the other reducer has too carry the prefix \<open>correct_\<close>.
  \<open>free_variables\<close> and \<open>bound_variables\<close> are the same functions in both modules.
\<close>

subsection \<open>Tokens\<close>

text \<open>\<open>s.replace(c, r)\<close> for a single character \<open>c\<close>.\<close>

definition replace_char :: "nat \<Rightarrow> pystr \<Rightarrow> pystr \<Rightarrow> pystr" where
  "replace_char c r s = concat (map (\<lambda>d. if d = c then r else [d]) s)"

definition preprocess_unicode :: "pystr \<Rightarrow> pystr" where
  "preprocess_unicode expression =
     (let expr = replace_char lambda_glyph [backslash] expression;
          expr = replace_char 8743 (asc ''and'') expr;
          expr = replace_char 8744 (asc ''or'') expr;
          expr = replace_char 172 (asc ''not'') expr
      in expr)"

text \<open>
  The scanning loop of \<open>_tokenize\<close> on the characters from index \<open>i\<close> on: white space
  is skipped, parentheses, the backslash and the dot are tokens, a maximal run of letters
  is one token, and any other character is dropped.
\<close>

function tokenize_from :: "pystr \<Rightarrow> pystr list" where
  "tokenize_from [] = []"
| "tokenize_from (c # cs) =
     (if isspace c then tokenize_from cs
      else if c = 40 \<or> c = 41 then [c] # tokenize_from cs
      else if c = backslash then [backslash] # tokenize_from cs
      else if c = 46 then [46] # tokenize_from cs
      else if isalpha c then
        takeWhile isalpha (c # cs) # tokenize_from (dropWhile isalpha (c # cs))
      else tokenize_from cs)"
  by pat_completeness auto
termination
  by (relation "measure length") (auto simp: length_dropWhile_le less_Suc_eq_le)

definition tokenize :: "pystr \<Rightarrow> pystr list" where
  "tokenize expression = tokenize_from (preprocess_unicode expression)"

text \<open>The \<open>ValueError\<close>s of the parser, one constructor for each message.\<close>

datatype parse_error =
    Empty_expression
  | Unexpected_token_at nat pystr
  | Unexpected_end_of_input
  | Unexpected_token pystr
  | Expected_parameter
  | Expected_dot
  | Expected_closing_parenthesis
  | Expected_variable_name
  | Expected_variable_name_got pystr

text \<open>\<open>token.isalpha()\<close>: the string is not empty and all its characters are letters.\<close>

definition str_isalpha :: "pystr \<Rightarrow> bool" where
  "str_isalpha s = (s \<noteq> [] \<and> list_all isalpha s)"

definition parse_variable_name :: "pystr list \<Rightarrow> nat \<Rightarrow> parse_error + (pystr \<times> nat)" where
  "parse_variable_name tokens position =
     (if position \<ge> length tokens then Inl Expected_variable_name
      else let token = tokens ! position
           in if \<not> str_isalpha token then Inl (Expected_variable_name_got token)
              else Inr (token, position + 1))"

definition parse_variable :: "pystr list \<Rightarrow> nat \<Rightarrow> parse_error + (Term \<times> nat)" where
  "parse_variable tokens position =
     (case parse_variable_name tokens position of
        Inl e \<Rightarrow> Inl e
      | Inr (nm, position') \<Rightarrow> Inr (Variable nm, position'))"

text \<open>
  \<open>token not in ')'\<close> is a substring test against a string of one character: it fails
  for that character and for the empty string.
\<close>

definition in_char :: "pystr \<Rightarrow> nat \<Rightarrow> bool" where
  "in_char token c = (token = [] \<or> token = [c])"

text \<open>
  The recursive descent over the token list. \<open>self.position\<close> is an argument and, on
  success, a result; \<open>parse_application_loop\<close> is the \<open>while\<close> loop of
  \<open>_parse_application\<close>.
\<close>

function parse_term :: "pystr list \<Rightarrow> nat \<Rightarrow> parse_error + (Term \<times> nat)"
  and parse_application :: "pystr list \<Rightarrow> nat \<Rightarrow> parse_error + (Term \<times> nat)"
  and parse_application_loop :: "pystr list \<Rightarrow> Term \<Rightarrow> nat \<Rightarrow> parse_error + (Term \<times> nat)"
  and parse_atom :: "pystr list \<Rightarrow> nat \<Rightarrow> parse_error + (Term \<times> nat)"
  and parse_lambda :: "pystr list \<Rightarrow> nat \<Rightarrow> parse_error + (Term \<times> nat)"
  and parse_parentheses :: "pystr list \<Rightarrow> nat \<Rightarrow> parse_error + (Term \<times> nat)"
where
  "parse_term tokens position = parse_application tokens position"
| "parse_application tokens position =
     (case parse_atom tokens position of
        Inl e \<Rightarrow> Inl e
      | Inr (left, position') \<Rightarrow> parse_application_loop tokens left position')"
| "parse_application_loop tokens left position =
     (if position < length tokens \<and> \<not> in_char (tokens ! position) 41
          \<and> \<not> in_char (tokens ! position) backslash then
        (case parse_atom tokens position of
           Inl e \<Rightarrow> Inl e
         | Inr (right, position') \<Rightarrow>
             parse_application_loop tokens (Application left right) position')
      else Inr (left, position))"
| "parse_atom tokens position =
     (if position \<ge> length tokens then Inl Unexpected_end_of_input
      else let token = tokens ! position
           in if token = [backslash] then parse_lambda tokens position
              else if token = [40] then parse_parentheses tokens position
              else if str_isalpha token then parse_variable tokens position
              else Inl (Unexpected_token token))"
| "parse_lambda tokens position =
     (let position = position + 1
      in if position \<ge> length tokens then Inl Expected_parameter
         else (case parse_variable_name tokens position of
                 Inl e \<Rightarrow> Inl e
               | Inr (param_name, position) \<Rightarrow>
                   if position \<ge> length tokens \<or> tokens ! position \<noteq> [46] then Inl Expected_dot
                   else (case parse_term tokens (position + 1) of
                           Inl e \<Rightarrow> Inl e
                         | Inr (bdy, position) \<Rightarrow> Inr (Lambda param_name bdy, position))))"
| "parse_parentheses tokens position =
     (let position = position + 1
      in (case parse_term tokens position of
            Inl e \<Rightarrow> Inl e
          | Inr (t, position) \<Rightarrow>
              if position \<ge> length tokens \<or> tokens ! position \<noteq> [41]
              then Inl Expected_closing_parenthesis
              else Inr (t, position + 1)))"
  by pat_completeness auto


text \<open>
  Termination: a successful call returns a position beyond the one it started from, so
  the loop and the recursive calls work on ever fewer tokens.
\<close>

lemma parse_variable_name_progress:
  "parse_variable_name tokens position = Inr (nm, position') \<Longrightarrow>
   position' = position + 1 \<and> position < length tokens"
  by (auto simp: parse_variable_name_def Let_def split: if_splits)

lemma parse_progress:
  "parse_term_parse_application_parse_application_loop_parse_atom_parse_lambda_parse_parentheses_dom
      (Inl (Inl (tokens, position))) \<Longrightarrow>
   \<forall>t position'. parse_term tokens position = Inr (t, position')
      \<longrightarrow> position < position' \<and> position < length tokens"
  "parse_term_parse_application_parse_application_loop_parse_atom_parse_lambda_parse_parentheses_dom
      (Inl (Inr (Inl (tokens, position)))) \<Longrightarrow>
   \<forall>t position'. parse_application tokens position = Inr (t, position')
      \<longrightarrow> position < position' \<and> position < length tokens"
  "parse_term_parse_application_parse_application_loop_parse_atom_parse_lambda_parse_parentheses_dom
      (Inl (Inr (Inr (tokens, left, position)))) \<Longrightarrow>
   \<forall>t position'. parse_application_loop tokens left position = Inr (t, position')
      \<longrightarrow> position \<le> position'"
  "parse_term_parse_application_parse_application_loop_parse_atom_parse_lambda_parse_parentheses_dom
      (Inr (Inl (tokens, position))) \<Longrightarrow>
   \<forall>t position'. parse_atom tokens position = Inr (t, position')
      \<longrightarrow> position < position' \<and> position < length tokens"
  "parse_term_parse_application_parse_application_loop_parse_atom_parse_lambda_parse_parentheses_dom
      (Inr (Inr (Inl (tokens, position)))) \<Longrightarrow>
   \<forall>t position'. parse_lambda tokens position = Inr (t, position')
      \<longrightarrow> position < position'"
  "parse_term_parse_application_parse_application_loop_parse_atom_parse_lambda_parse_parentheses_dom
      (Inr (Inr (Inr (tokens, position)))) \<Longrightarrow>
   \<forall>t position'. parse_parentheses tokens position = Inr (t, position')
      \<longrightarrow> position < position'"
proof (induct rule:
    parse_term_parse_application_parse_application_loop_parse_atom_parse_lambda_parse_parentheses.pinduct)
  case (1 tokens position)
  then show ?case by (simp add: parse_term.psimps)
next
  case (2 tokens position)
  show ?case
  proof (intro allI impI)
    fix t position'
    assume res: "parse_application tokens position = Inr (t, position')"
    show "position < position' \<and> position < length tokens"
    proof (cases "parse_atom tokens position")
      case (Inl e)
      with res "2.hyps"(1) show ?thesis by (simp add: parse_application.psimps)
    next
      case (Inr b)
      obtain left p1 where b: "b = (left, p1)" by (cases b)
      from Inr b res "2.hyps"(1) have "parse_application_loop tokens left p1 = Inr (t, position')"
        by (simp add: parse_application.psimps)
      with "2.hyps"(3) [OF Inr b [symmetric]] have "p1 \<le> position'" by blast
      moreover from "2.hyps"(2) Inr b have "position < p1 \<and> position < length tokens" by blast
      ultimately show ?thesis by simp
    qed
  qed
next
  case (3 tokens left position)
  show ?case
  proof (intro allI impI)
    fix t position'
    assume res: "parse_application_loop tokens left position = Inr (t, position')"
    show "position \<le> position'"
    proof (cases "position < length tokens \<and> \<not> in_char (tokens ! position) 41
          \<and> \<not> in_char (tokens ! position) backslash")
      case False
      with res "3.hyps"(1) show ?thesis by (auto simp add: parse_application_loop.psimps)
    next
      case guard: True
      show ?thesis
      proof (cases "parse_atom tokens position")
        case (Inl e)
        with res guard "3.hyps"(1) show ?thesis by (simp add: parse_application_loop.psimps)
      next
        case (Inr b)
        obtain right p1 where b: "b = (right, p1)" by (cases b)
        from Inr b res guard "3.hyps"(1)
        have "parse_application_loop tokens (Application left right) p1 = Inr (t, position')"
          by (simp add: parse_application_loop.psimps)
        with "3.hyps"(3) [OF guard Inr b [symmetric]] have "p1 \<le> position'" by blast
        moreover from "3.hyps"(2) [OF guard] Inr b have "position < p1" by blast
        ultimately show ?thesis by simp
      qed
    qed
  qed
next
  case (4 tokens position)
  show ?case
  proof (intro allI impI)
    fix t position'
    assume res: "parse_atom tokens position = Inr (t, position')"
    then have lt: "\<not> length tokens \<le> position"
      using "4.hyps"(1) by (auto simp add: parse_atom.psimps)
    consider (lam) "tokens ! position = [backslash]"
      | (par) "tokens ! position \<noteq> [backslash]" "tokens ! position = [40]"
      | (var) "tokens ! position \<noteq> [backslash]" "tokens ! position \<noteq> [40]"
      by blast
    then show "position < position' \<and> position < length tokens"
    proof cases
      case lam
      with res lt "4.hyps"(1) have "parse_lambda tokens position = Inr (t, position')"
        by (simp add: parse_atom.psimps)
      with "4.hyps"(2) [OF lt refl lam] lt show ?thesis by auto
    next
      case par
      with res lt "4.hyps"(1) have "parse_parentheses tokens position = Inr (t, position')"
        by (simp add: parse_atom.psimps)
      with "4.hyps"(3) [OF lt refl par] lt show ?thesis by auto
    next
      case var
      with res lt "4.hyps"(1) have "parse_variable tokens position = Inr (t, position')"
        by (simp add: parse_atom.psimps Let_def split: if_splits)
      then show ?thesis
        by (auto simp: parse_variable_def split: sum.splits dest: parse_variable_name_progress)
    qed
  qed
next
  case (5 tokens position)
  show ?case
  proof (intro allI impI)
    fix t position'
    assume res: "parse_lambda tokens position = Inr (t, position')"
    with "5.hyps"(1) have lt: "\<not> length tokens \<le> position + 1"
      by (auto simp add: parse_lambda.psimps Let_def split: if_splits)
    show "position < position'"
    proof (cases "parse_variable_name tokens (position + 1)")
      case (Inl e)
      with res lt "5.hyps"(1) show ?thesis by (simp add: parse_lambda.psimps)
    next
      case (Inr b)
      obtain nm p1 where b: "b = (nm, p1)" by (cases b)
      from Inr b have p1: "p1 = position + 2"
        using parse_variable_name_progress [of tokens "position + 1" nm p1] by simp
      from res lt Inr b "5.hyps"(1) have dot: "\<not> (length tokens \<le> p1 \<or> tokens ! p1 \<noteq> [46])"
        by (auto simp add: parse_lambda.psimps split: if_splits)
      show ?thesis
      proof (cases "parse_term tokens (p1 + 1)")
        case (Inl e)
        with res lt Inr b dot "5.hyps"(1) show ?thesis by (simp add: parse_lambda.psimps)
      next
        case inner: (Inr c)
        obtain bdy p2 where c: "c = (bdy, p2)" by (cases c)
        from res lt Inr b dot inner c "5.hyps"(1) have "position' = p2"
          by (simp add: parse_lambda.psimps)
        moreover from "5.hyps"(2) [OF refl lt Inr b [symmetric] dot] inner c
        have "p1 + 1 < p2" by blast
        ultimately show ?thesis using p1 by simp
      qed
    qed
  qed
next
  case (6 tokens position)
  show ?case
  proof (intro allI impI)
    fix t position'
    assume res: "parse_parentheses tokens position = Inr (t, position')"
    show "position < position'"
    proof (cases "parse_term tokens (position + 1)")
      case (Inl e)
      with res "6.hyps"(1) show ?thesis by (simp add: parse_parentheses.psimps)
    next
      case (Inr c)
      obtain bdy p2 where c: "c = (bdy, p2)" by (cases c)
      from res Inr c "6.hyps"(1) have "position' = p2 + 1"
        by (auto simp add: parse_parentheses.psimps split: if_splits)
      moreover from "6.hyps"(2) [OF refl] Inr c have "position + 1 < p2" by blast
      ultimately show ?thesis by simp
    qed
  qed
qed


termination parse_term
proof (relation "measure (\<lambda>x.
    case x of
      Inl (Inl (tokens, position)) \<Rightarrow> 10 * (length tokens - position) + 5
    | Inl (Inr (Inl (tokens, position))) \<Rightarrow> 10 * (length tokens - position) + 4
    | Inl (Inr (Inr (tokens, left, position))) \<Rightarrow> 10 * (length tokens - position) + 3
    | Inr (Inl (tokens, position)) \<Rightarrow> 10 * (length tokens - position) + 2
    | Inr (Inr (Inl (tokens, position))) \<Rightarrow>
        10 * (length tokens - position) + (if position < length tokens then 1 else 9)
    | Inr (Inr (Inr (tokens, position))) \<Rightarrow>
        10 * (length tokens - position) + (if position < length tokens then 1 else 9))",
    goal_cases)
  case (4 tokens position b x y)
  from parse_progress(4) [OF 4(3)] 4(1,2) have "position < y \<and> position < length tokens"
    by (metis)
  then show ?case by auto
next
  case (6 tokens left position b x y)
  from parse_progress(4) [OF 6(4)] 6(2,3) have "position < y \<and> position < length tokens"
    by (metis)
  then show ?case by auto
next
  case (9 tokens position x b xa y)
  from parse_variable_name_progress [of tokens x xa y] 9 have "y = position + 2" by simp
  with 9 show ?case by auto
qed auto


declare parse_term.simps [simp del] parse_application.simps [simp del]
  parse_application_loop.simps [simp del] parse_atom.simps [simp del]
  parse_lambda.simps [simp del] parse_parentheses.simps [simp del]

definition parse :: "pystr \<Rightarrow> parse_error + Term" where
  "parse expression =
     (let tokens = tokenize expression
      in if tokens = [] then Inl Empty_expression
         else (case parse_term tokens 0 of
                 Inl e \<Rightarrow> Inl e
               | Inr (result, position) \<Rightarrow>
                   if position < length tokens
                   then Inl (Unexpected_token_at position (tokens ! position))
                   else Inr result))"

fun correct_str_term :: "Term \<Rightarrow> pystr" where
  "correct_str_term (Variable v) = v"
| "correct_str_term (Lambda p b) = [backslash] @ p @ asc ''.'' @ correct_str_term b"
| "correct_str_term (Application f a) =
     asc ''('' @ correct_str_term f @ asc '' '' @ correct_str_term a @ asc '')''"

record correct_redex_info =
  correct_redex_type :: pystr
  correct_redex_function :: pystr
  correct_redex_argument :: pystr
  correct_redex_parameter :: pystr
  correct_redex_body :: pystr

fun correct_find_leftmost_outermost_redex :: "Term \<Rightarrow> correct_redex_info option" where
  "correct_find_leftmost_outermost_redex (Application f a) =
     (if is_Lambda f then
        Some \<lparr>correct_redex_type = asc ''beta_redex'',
              correct_redex_function = correct_str_term f,
              correct_redex_argument = correct_str_term a,
              correct_redex_parameter = parameter f,
              correct_redex_body = correct_str_term (body f)\<rparr>
      else (case correct_find_leftmost_outermost_redex f of
              Some left_redex \<Rightarrow> Some left_redex
            | None \<Rightarrow> correct_find_leftmost_outermost_redex a))"
| "correct_find_leftmost_outermost_redex (Lambda p b) = correct_find_leftmost_outermost_redex b"
| "correct_find_leftmost_outermost_redex (Variable v) = None"

fun correct_find_leftmost_innermost_redex :: "Term \<Rightarrow> correct_redex_info option" where
  "correct_find_leftmost_innermost_redex (Application f a) =
     (case correct_find_leftmost_innermost_redex f of
        Some left_redex \<Rightarrow> Some left_redex
      | None \<Rightarrow>
         (case correct_find_leftmost_innermost_redex a of
            Some right_redex \<Rightarrow> Some right_redex
          | None \<Rightarrow>
             (if is_Lambda f then
                Some \<lparr>correct_redex_type = asc ''beta_redex'',
                      correct_redex_function = correct_str_term f,
                      correct_redex_argument = correct_str_term a,
                      correct_redex_parameter = parameter f,
                      correct_redex_body = correct_str_term (body f)\<rparr>
              else None)))"
| "correct_find_leftmost_innermost_redex (Lambda p b) = correct_find_leftmost_innermost_redex b"
| "correct_find_leftmost_innermost_redex (Variable v) = None"

fun correct_find_redex :: "ReductionStrategy \<Rightarrow> Term \<Rightarrow> correct_redex_info option" where
  "correct_find_redex NORMAL_ORDER t = correct_find_leftmost_outermost_redex t"
| "correct_find_redex APPLICATIVE_ORDER t = correct_find_leftmost_innermost_redex t"
| "correct_find_redex s t = correct_find_leftmost_outermost_redex t"

definition correct_generate_fresh_variable :: "nat \<Rightarrow> pystr \<times> nat" where
  "correct_generate_fresh_variable variable_counter =
     (let variable_counter = variable_counter + 1
      in (asc ''v'' @ str_nat variable_counter, variable_counter))"

function correct_substitute :: "Term \<Rightarrow> pystr \<Rightarrow> Term \<Rightarrow> nat \<Rightarrow> Term \<times> nat" where
  "correct_substitute (Variable v) param arg variable_counter =
     (if v = param then (arg, variable_counter) else (Variable v, variable_counter))"
| "correct_substitute (Lambda p b) param arg variable_counter =
     (if p = param then (Lambda p b, variable_counter)
      else if p |\<in>| free_variables arg then
        (let (new_param, variable_counter) = correct_generate_fresh_variable variable_counter;
             (new_body, variable_counter) =
                correct_substitute b p (Variable new_param) variable_counter;
             (substituted, variable_counter) =
                correct_substitute new_body param arg variable_counter
         in (Lambda new_param substituted, variable_counter))
      else
        (let (new_body, variable_counter) = correct_substitute b param arg variable_counter
         in (Lambda p new_body, variable_counter)))"
| "correct_substitute (Application f a) param arg variable_counter =
     (let (new_function, variable_counter) = correct_substitute f param arg variable_counter;
          (new_argument, variable_counter) = correct_substitute a param arg variable_counter
      in (Application new_function new_argument, variable_counter))"
  by pat_completeness auto

lemma correct_substitute_size_partial:
  "correct_substitute_dom (t, param, arg, c) \<Longrightarrow> (\<exists>y. arg = Variable y) \<Longrightarrow>
   size (fst (correct_substitute t param arg c)) = size t"
proof (induction t param arg c rule: correct_substitute.pinduct)
  case (1 v param arg variable_counter)
  then show ?case by (auto simp: correct_substitute.psimps)
next
  case (2 p b param arg variable_counter)
  then show ?case
    by (auto simp: correct_substitute.psimps Let_def split: prod.splits)
next
  case (3 f a param arg variable_counter)
  then show ?case
    by (auto simp: correct_substitute.psimps Let_def split: prod.splits)
qed

termination correct_substitute
proof (relation "measure (\<lambda>(t, param, arg, c). size t)", goal_cases)
  case (3 p b param arg variable_counter x xa y xb xc ya)
  from 3(5,6) have "xc = fst (correct_substitute b p (Variable xa) y)"
    by (metis fst_conv)
  with 3(7) show ?case
    using correct_substitute_size_partial [of b p "Variable xa" y] by simp
qed simp_all


declare correct_substitute.simps(2) [simp del]

fun correct_beta_reduce :: "Term \<Rightarrow> correct_redex_info \<Rightarrow> nat \<Rightarrow> Term \<times> nat" where
  "correct_beta_reduce (Application f a) info variable_counter =
     (if is_Lambda f then correct_substitute (body f) (parameter f) a variable_counter
      else
        (let (new_function, variable_counter) = correct_beta_reduce f info variable_counter
         in if new_function \<noteq> f then (Application new_function a, variable_counter)
            else
              (let (new_argument, variable_counter) = correct_beta_reduce a info variable_counter
               in (Application f new_argument, variable_counter))))"
| "correct_beta_reduce (Lambda p b) info variable_counter =
     (let (new_body, variable_counter) = correct_beta_reduce b info variable_counter
      in (Lambda p new_body, variable_counter))"
| "correct_beta_reduce (Variable v) info variable_counter = (Variable v, variable_counter)"

definition correct_reduce_redex :: "Term \<Rightarrow> correct_redex_info \<Rightarrow> nat \<Rightarrow> Term \<times> nat" where
  "correct_reduce_redex t info variable_counter =
     (if correct_redex_type info = asc ''beta_redex''
      then correct_beta_reduce t info variable_counter
      else (t, variable_counter))"

text \<open>The table of \<open>CorrectBetaReducer._identify_combinator\<close>: names first, then patterns.\<close>

definition correct_combinators :: "(pystr \<times> pystr) list" where
  "correct_combinators =
    [(asc ''I'', backslash # asc ''x.x''),
     (asc ''K'', backslash # asc ''x.'' @ backslash # asc ''y.x''),
     (asc ''S'', backslash # asc ''x.'' @ backslash # asc ''y.'' @ backslash # asc ''z.x z (y z)''),
     (asc ''Y'', backslash # asc ''f.('' @ backslash # asc ''x.f (x x)) (''
                   @ backslash # asc ''x.f (x x))''),
     (asc ''B'', backslash # asc ''f.'' @ backslash # asc ''g.'' @ backslash # asc ''x.f (g x)''),
     (asc ''C'', backslash # asc ''f.'' @ backslash # asc ''x.'' @ backslash # asc ''y.f y x''),
     (asc ''W'', backslash # asc ''f.'' @ backslash # asc ''x.f x x'')]"

fun correct_first_equivalent :: "pystr \<Rightarrow> (pystr \<times> pystr) list \<Rightarrow> pystr option" where
  "correct_first_equivalent term_str [] = None"
| "correct_first_equivalent term_str ((nm, pattern) # items) =
     (if terms_equivalent term_str (remove_spaces pattern) then Some nm
      else correct_first_equivalent term_str items)"

definition correct_identify_combinator :: "Term \<Rightarrow> pystr option" where
  "correct_identify_combinator t =
     correct_first_equivalent (remove_spaces (correct_str_term t)) correct_combinators"

function correct_reduce_loop ::
  "ReductionStrategy \<Rightarrow> int \<Rightarrow> Term \<Rightarrow> int \<Rightarrow> correct_redex_info reduction_step list \<Rightarrow> nat
     \<Rightarrow> Term \<times> int \<times> correct_redex_info reduction_step list \<times> nat" where
  "correct_reduce_loop strategy max_steps current_term step_count steps variable_counter =
     (if step_count < max_steps then
        (case correct_find_redex strategy current_term of
           None \<Rightarrow> (current_term, step_count, steps, variable_counter)
         | Some info \<Rightarrow>
            (let (new_term, variable_counter) =
                    correct_reduce_redex current_term info variable_counter;
                 step_count' = step_count + 1;
                 steps' = steps @
                   [\<lparr>step = step_count', step_term = correct_str_term new_term,
                     action = asc ''beta_reduction'', redex = Some info,
                     step_free_variables = free_variables new_term,
                     step_bound_variables = bound_variables new_term\<rparr>]
             in if stagnated step_count' steps'
                then (new_term, step_count', steps', variable_counter)
                else correct_reduce_loop strategy max_steps new_term step_count' steps'
                       variable_counter))
      else (current_term, step_count, steps, variable_counter))"
  by pat_completeness auto
termination
  by (relation "measure (\<lambda>(strategy, max_steps, current_term, step_count, steps, c).
        nat (max_steps - step_count))") auto

declare correct_reduce_loop.simps [simp del]

record correct_reduction_result =
  correct_original_term :: pystr
  correct_final_term :: pystr
  correct_is_normal_form :: bool
  correct_steps :: int
  correct_reduction_steps :: "correct_redex_info reduction_step list"
  correct_strategy :: pystr
  correct_combinator :: "pystr option"

text \<open>
  \<open>reduce\<close> clears the trace but not \<open>variable_counter\<close>, which the reducer object
  keeps from one call to the next: the counter is an argument and a result.
\<close>

definition correct_reduce ::
  "ReductionStrategy \<Rightarrow> Term \<Rightarrow> int \<Rightarrow> nat \<Rightarrow> correct_reduction_result \<times> nat" where
  "correct_reduce strategy t max_steps variable_counter =
     (let initial =
            \<lparr>step = 0, step_term = correct_str_term t, action = asc ''initial'', redex = None,
             step_free_variables = free_variables t,
             step_bound_variables = bound_variables t\<rparr>;
          (current_term, step_count, steps, variable_counter) =
             correct_reduce_loop strategy max_steps t 0 [initial] variable_counter
      in (\<lparr>correct_original_term = correct_str_term t,
           correct_final_term = correct_str_term current_term,
           correct_is_normal_form = (correct_find_redex strategy current_term = None),
           correct_steps = step_count,
           correct_reduction_steps = steps,
           correct_strategy = strategy_value strategy,
           correct_combinator = correct_identify_combinator current_term\<rparr>,
          variable_counter))"

lemmas evaluation_simps =
  asc_def lambda_glyph_def backslash_def isspace_def isalpha_def isdigit_def isalnum_def Let_def
  tokenize_def preprocess_unicode_def replace_char_def
  parse_def parse_variable_def parse_variable_name_def str_isalpha_def in_char_def
  reduce_def reduce_loop.simps reduce_redex_def perform_beta_reduction_def stagnated_def
  List.card_set substitute.simps(3) generate_fresh_variable_def letters_def
  correct_reduce_def correct_reduce_loop.simps correct_reduce_redex_def
  correct_substitute.simps(2) correct_generate_fresh_variable_def str_nat.simps
  lp_parse_def lp_parse_variable_def lp_parse_variable_name_def
  parse_term.simps parse_application.simps parse_application_loop.simps parse_atom.simps
  parse_lambda.simps parse_parentheses.simps
  lp_parse_term.simps lp_parse_application.simps lp_parse_application_loop.simps
  lp_parse_atom.simps lp_parse_lambda.simps lp_parse_parentheses.simps

section \<open>Example inputs\<close>


definition Omega :: Term where
  "Omega = Application
     (Lambda (asc ''x'') (Application (Variable (asc ''x'')) (Variable (asc ''x''))))
     (Lambda (asc ''x'') (Application (Variable (asc ''x'')) (Variable (asc ''x''))))"

definition constant_text :: pystr where
  "constant_text = asc ''('' @ [backslash] @ asc ''x.'' @ [backslash] @ asc ''y.x) a b''"

definition constant_term :: Term where
  "constant_term = Application
     (Application (Lambda (asc ''x'') (Lambda (asc ''y'') (Variable (asc ''x''))))
        (Variable (asc ''a'')))
     (Variable (asc ''b''))"

definition applicative_example :: Term where
  "applicative_example = Application
     (Lambda (asc ''x'') (Variable (asc ''a'')))
     (Application (Lambda (asc ''y'') (Variable (asc ''y''))) (Variable (asc ''z'')))"

text \<open>The identity applied to \<open>y\<close>, written with the lambda glyph and no space.\<close>

definition identity_applied_text :: pystr where
  "identity_applied_text = asc ''('' @ [lambda_glyph] @ asc ''x.x)y''"

definition identity_applied :: Term where
  "identity_applied = Application (Lambda (asc ''x'') (Variable (asc ''x''))) (Variable (asc ''y''))"

text \<open>
  The combinator \<open>C\<close> (flip), the Church numeral two, and a redex whose contraction has
  to rename a binder: \<open>(\x.\y.x) y\<close>.
\<close>

definition flip_combinator :: Term where
  "flip_combinator =
     Lambda (asc ''f'') (Lambda (asc ''x'') (Lambda (asc ''y'')
       (Application (Application (Variable (asc ''f'')) (Variable (asc ''y'')))
          (Variable (asc ''x'')))))"

definition church_two :: Term where
  "church_two =
     Lambda (asc ''f'') (Lambda (asc ''x'')
       (Application (Variable (asc ''f''))
          (Application (Variable (asc ''f'')) (Variable (asc ''x'')))))"


section \<open>Binding structure\<close>

text \<open>
  What a substitution may and may not do to the binders of a term is stated on its
  nameless form: a bound occurrence becomes the number of binders between it and its own
  binder, a free occurrence is looked up in an environment (at top level the environment
  \<open>Free\<close>, which leaves the name in place). Two terms have the same nameless form
  exactly when they differ in the names of their bound variables only, and an occurrence
  that a binder captures shows as \<open>Bound\<close> where it was \<open>Free\<close>.
\<close>

datatype nameless = Free pystr | Bound nat | NApp nameless nameless | NLam nameless

fun lift :: "nat \<Rightarrow> nameless \<Rightarrow> nameless" where
  "lift k (Free x) = Free x"
| "lift k (Bound i) = (if i < k then Bound i else Bound (i + 1))"
| "lift k (NApp f a) = NApp (lift k f) (lift k a)"
| "lift k (NLam b) = NLam (lift (k + 1) b)"

fun nameless_of :: "(pystr \<Rightarrow> nameless) \<Rightarrow> Term \<Rightarrow> nameless" where
  "nameless_of env (Variable v) = env v"
| "nameless_of env (Application f a) = NApp (nameless_of env f) (nameless_of env a)"
| "nameless_of env (Lambda p b) = NLam (nameless_of ((lift 0 \<circ> env)(p := Bound 0)) b)"


section \<open>Positions and names\<close>

text \<open>The subterm that a path of the redex search leads to, if the path fits the term.\<close>

fun subterm_at :: "Term \<Rightarrow> direction list \<Rightarrow> Term option" where
  "subterm_at t [] = Some t"
| "subterm_at (Application f a) (Function # rest) = subterm_at f rest"
| "subterm_at (Application f a) (Argument # rest) = subterm_at a rest"
| "subterm_at (Lambda p b) (Body # rest) = subterm_at b rest"
| "subterm_at t (d # rest) = None"

text \<open>
  \<open>all_names P t\<close>: the name of every \<open>Variable\<close> node of \<open>t\<close>, parameters of
  abstractions included, satisfies \<open>P\<close>. An identifier is a non-empty string of letters,
  digits and underscores.
\<close>

fun all_names :: "(pystr \<Rightarrow> bool) \<Rightarrow> Term \<Rightarrow> bool" where
  "all_names P (Variable v) = P v"
| "all_names P (Lambda p b) = (P p \<and> all_names P b)"
| "all_names P (Application f a) = (all_names P f \<and> all_names P a)"

definition is_identifier :: "pystr \<Rightarrow> bool" where
  "is_identifier s = (s \<noteq> [] \<and> list_all (\<lambda>c. isalnum c \<or> c = 95) s)"

section \<open>Properties of the reducer of complete\_beta\_reduction.py\<close>

subsection \<open>Substitution\<close>

lemma nameless_of_cong:
  "(\<And>v. v |\<in>| free_variables t \<Longrightarrow> env v = env' v) \<Longrightarrow> nameless_of env t = nameless_of env' t"
proof (induction t arbitrary: env env')
  case (Variable v)
  then show ?case by simp
next
  case (Lambda p b)
  have "nameless_of ((lift 0 \<circ> env)(p := Bound 0)) b = nameless_of ((lift 0 \<circ> env')(p := Bound 0)) b"
    by (rule Lambda.IH) (use Lambda.prems in auto)
  then show ?case by simp
next
  case (Application f a)
  have "nameless_of env f = nameless_of env' f" "nameless_of env a = nameless_of env' a"
    by (rule Application.IH; use Application.prems in auto)+
  then show ?case by simp
qed

lemma lift_lift: "i \<le> k \<Longrightarrow> lift i (lift k d) = lift (Suc k) (lift i d)"
  by (induction d arbitrary: i k) auto

lemma nameless_of_lift: "nameless_of (lift k \<circ> env) t = lift k (nameless_of env t)"
proof (induction t arbitrary: env k)
  case (Variable v)
  then show ?case by simp
next
  case (Lambda p b)
  have "(lift 0 \<circ> (lift k \<circ> env))(p := Bound 0) = lift (Suc k) \<circ> ((lift 0 \<circ> env)(p := Bound 0))"
    by (rule ext) (simp add: lift_lift)
  then have "nameless_of (lift k \<circ> env) (Lambda p b)
      = NLam (nameless_of (lift (Suc k) \<circ> ((lift 0 \<circ> env)(p := Bound 0))) b)"
    by (simp only: nameless_of.simps)
  also have "\<dots> = NLam (lift (Suc k) (nameless_of ((lift 0 \<circ> env)(p := Bound 0)) b))"
    by (simp only: Lambda.IH)
  finally show ?case by (simp only: nameless_of.simps lift.simps Suc_eq_plus1)
next
  case (Application f a)
  then show ?case by simp
qed

lemma first_free_letter_fresh: "first_free_letter cs A = Some c \<Longrightarrow> c |\<notin>| A"
  by (induction cs) (auto split: if_splits)

lemma first_free_numbered_fresh: "first_free_numbered A n |\<notin>| A"
proof (induction A n rule: first_free_numbered.induct)
  case (1 A n)
  then show ?case by (subst first_free_numbered.simps) (simp add: Let_def)
qed

lemma generate_fresh_variable_fresh: "generate_fresh_variable A |\<notin>| A"
  by (simp add: generate_fresh_variable_def first_free_letter_fresh first_free_numbered_fresh
      split: option.split)

lemma substitute_Lambda_same: "substitute (Lambda p b) p r = Lambda p b"
  by simp

lemma substitute_Lambda_plain:
  "p \<noteq> var \<Longrightarrow> p |\<notin>| free_variables r \<Longrightarrow>
   substitute (Lambda p b) var r = Lambda p (substitute b var r)"
  by simp

lemma substitute_Lambda_rename:
  "p \<noteq> var \<Longrightarrow> p |\<in>| free_variables r \<Longrightarrow>
   new_param = generate_fresh_variable (free_variables b |\<union>| free_variables r |\<union>| {|var|}) \<Longrightarrow>
   substitute (Lambda p b) var r
     = Lambda new_param (substitute (substitute b p (Variable new_param)) var r)"
  by (simp add: Let_def)

declare substitute.simps(3) [simp del]
declare substitute_Lambda_same [simp] substitute_Lambda_plain [simp]

lemma substitute_nameless:
  "nameless_of env (substitute t var r) = nameless_of (env(var := nameless_of env r)) t"
proof (induction t var r arbitrary: env rule: substitute.induct)
  case (1 v var replacement)
  then show ?case by simp
next
  case (2 f a var replacement)
  then show ?case by simp
next
  case (3 p b var replacement)
  show ?case
  proof (cases "p = var")
    case True
    then have "(lift 0 \<circ> env)(p := Bound 0)
        = (lift 0 \<circ> (env(var := nameless_of env replacement)))(p := Bound 0)"
      by (auto simp: fun_eq_iff)
    with True show ?thesis by (simp only: substitute_Lambda_same nameless_of.simps)
  next
    case neq: False
    let ?env' = "\<lambda>q. (lift 0 \<circ> env)(q := Bound 0)"
    show ?thesis
    proof (cases "p |\<in>| free_variables replacement")
      case False
      have "nameless_of (?env' p) replacement = lift 0 (nameless_of env replacement)"
      proof -
        have "nameless_of (?env' p) replacement = nameless_of (lift 0 \<circ> env) replacement"
          by (rule nameless_of_cong) (use False in auto)
        then show ?thesis by (simp add: nameless_of_lift)
      qed
      then have "(?env' p)(var := nameless_of (?env' p) replacement)
           = (lift 0 \<circ> (env(var := nameless_of env replacement)))(p := Bound 0)"
        using neq by (auto simp: fun_eq_iff)
      with "3.IH"(3) [OF neq False, of "?env' p"] show ?thesis
        by (simp only: substitute_Lambda_plain [OF neq False] nameless_of.simps)
    next
      case True
      define new_param where "new_param = generate_fresh_variable
               (free_variables b |\<union>| free_variables replacement |\<union>| {|var|})"
      have fresh: "new_param |\<notin>| free_variables b" "new_param |\<notin>| free_variables replacement"
        "new_param \<noteq> var"
        using generate_fresh_variable_fresh
          [of "free_variables b |\<union>| free_variables replacement |\<union>| {|var|}"]
        by (auto simp: new_param_def)
      have repl: "nameless_of (?env' new_param) replacement = lift 0 (nameless_of env replacement)"
      proof -
        have "nameless_of (?env' new_param) replacement = nameless_of (lift 0 \<circ> env) replacement"
          by (rule nameless_of_cong) (use fresh in auto)
        then show ?thesis by (simp add: nameless_of_lift)
      qed
      have "nameless_of (?env' new_param)
              (substitute (substitute b p (Variable new_param)) var replacement)
          = nameless_of ((?env' new_param)(var := nameless_of (?env' new_param) replacement))
              (substitute b p (Variable new_param))"
        using "3.IH"(2) [OF neq True new_param_def refl, of "?env' new_param"] .
      also have "\<dots> = nameless_of
            (((?env' new_param)(var := nameless_of (?env' new_param) replacement))(p := Bound 0)) b"
      proof -
        let ?E = "(?env' new_param)(var := nameless_of (?env' new_param) replacement)"
        have "nameless_of ?E (Variable new_param) = Bound 0"
          using fresh by simp
        with "3.IH"(1) [OF neq True new_param_def, of ?E] show ?thesis
          by (simp only:)
      qed
      also have "\<dots> = nameless_of
            ((lift 0 \<circ> (env(var := nameless_of env replacement)))(p := Bound 0)) b"
        by (rule nameless_of_cong) (use fresh neq repl in auto)
      finally show ?thesis
        by (simp only: substitute_Lambda_rename [OF neq True new_param_def] nameless_of.simps)
    qed
  qed
qed

lemma free_variables_substitute_eq:
  "free_variables (substitute t var r) =
     (if var |\<in>| free_variables t then (free_variables t |-| {|var|}) |\<union>| free_variables r
      else free_variables t)"
proof (induction t var r rule: substitute.induct)
  case (1 v var replacement)
  then show ?case by auto
next
  case (2 f a var replacement)
  then show ?case by auto
next
  case (3 p b var replacement)
  show ?case
  proof (cases "p = var")
    case True
    then show ?thesis by auto
  next
    case neq: False
    show ?thesis
    proof (cases "p |\<in>| free_variables replacement")
      case False
      with "3.IH"(3) [OF neq False] neq show ?thesis
        by auto
    next
      case True
      define new_param where "new_param = generate_fresh_variable
               (free_variables b |\<union>| free_variables replacement |\<union>| {|var|})"
      have fresh: "new_param |\<notin>| free_variables b" "new_param |\<notin>| free_variables replacement"
        "new_param \<noteq> var"
        using generate_fresh_variable_fresh
          [of "free_variables b |\<union>| free_variables replacement |\<union>| {|var|}"]
        by (auto simp: new_param_def)
      have inner: "free_variables (substitute b p (Variable new_param)) =
          (if p |\<in>| free_variables b then (free_variables b |-| {|p|}) |\<union>| {|new_param|}
           else free_variables b)"
        using "3.IH"(1) [OF neq True new_param_def] by simp
      have outer: "free_variables (substitute (substitute b p (Variable new_param)) var replacement)
          = (if var |\<in>| free_variables (substitute b p (Variable new_param))
             then (free_variables (substitute b p (Variable new_param)) |-| {|var|})
                |\<union>| free_variables replacement
             else free_variables (substitute b p (Variable new_param)))"
        using "3.IH"(2) [OF neq True new_param_def refl] .
      have "free_variables (Lambda new_param
              (substitute (substitute b p (Variable new_param)) var replacement))
          = (if var |\<in>| free_variables (Lambda p b)
             then (free_variables (Lambda p b) |-| {|var|}) |\<union>| free_variables replacement
             else free_variables (Lambda p b))"
        unfolding free_variables.simps outer inner using fresh neq True
        by (auto split: if_splits)
      then show ?thesis
        by (simp only: substitute_Lambda_rename [OF neq True new_param_def])
    qed
  qed
qed

lemma free_variables_substitute:
  "free_variables (substitute t var r) |\<subseteq>| (free_variables t |-| {|var|}) |\<union>| free_variables r"
  by (auto simp: free_variables_substitute_eq)

text \<open>
  An example that needs a renaming: substituting \<open>y\<close> for \<open>x\<close> under the binder
  \<open>y\<close> renames the binder to the first letter that is free for it.
\<close>

lemma capture_example:
  "substitute (Lambda (asc ''y'') (Variable (asc ''x''))) (asc ''x'') (Variable (asc ''y''))
     = Lambda (asc ''a'') (Variable (asc ''y''))"
  by (simp add: substitute.simps(3) generate_fresh_variable_def letters_def asc_def)


text \<open>
  A substitution that kept the binder \<open>y\<close> would give \<open>\<lambda>y.y\<close>, in which the
  replacement is bound; the nameless forms tell the two results apart.
\<close>

lemma capture_shows_in_nameless_form:
  "nameless_of Free (Lambda (asc ''y'') (Variable (asc ''y''))) = NLam (Bound 0)
   \<and> nameless_of Free
        (substitute (Lambda (asc ''y'') (Variable (asc ''x''))) (asc ''x'') (Variable (asc ''y'')))
       = NLam (Free (asc ''y''))"
  by (simp add: capture_example) (simp add: asc_def)

text \<open>
  Claim C1. Substitution is capture-avoiding. For all terms \<open>M\<close> and \<open>N\<close> and every
  variable \<open>x\<close>, the nameless form of \<open>substitute M x N\<close> is the nameless form of
  \<open>M\<close> in which the free occurrences of \<open>x\<close> stand for the nameless form of \<open>N\<close>:
  every occurrence in \<open>M\<close> keeps its binder, and every free variable of an inserted
  copy of \<open>N\<close> refers to what it referred to outside, so none of them is bound by a
  binder of \<open>M\<close>. Under a binder \<open>p\<close> that is free in \<open>N\<close> the function first picks a
  name that is not free in the body, not free in \<open>N\<close> and different from \<open>x\<close>, renames
  the binder to it and only then substitutes. The free variables of the result are those
  of \<open>M\<close> without \<open>x\<close> together with all those of \<open>N\<close> when \<open>x\<close> is free in \<open>M\<close>,
  and those of \<open>M\<close> otherwise.
\<close>

theorem substitute_capture_avoiding:
  "nameless_of env (substitute M x N) = nameless_of (env(x := nameless_of env N)) M
   \<and> generate_fresh_variable (free_variables b |\<union>| free_variables N |\<union>| {|x|})
         |\<notin>| free_variables b
   \<and> generate_fresh_variable (free_variables b |\<union>| free_variables N |\<union>| {|x|})
         |\<notin>| free_variables N
   \<and> generate_fresh_variable (free_variables b |\<union>| free_variables N |\<union>| {|x|}) \<noteq> x
   \<and> substitute (Lambda p b) x N =
        (if p = x then Lambda p b
         else if p |\<in>| free_variables N then
           Lambda (generate_fresh_variable (free_variables b |\<union>| free_variables N |\<union>| {|x|}))
             (substitute
               (substitute b p (Variable (generate_fresh_variable
                  (free_variables b |\<union>| free_variables N |\<union>| {|x|}))))
               x N)
         else Lambda p (substitute b x N))
   \<and> free_variables (substitute M x N) =
        (if x |\<in>| free_variables M then (free_variables M |-| {|x|}) |\<union>| free_variables N
         else free_variables M)"
proof -
  let ?new = "generate_fresh_variable (free_variables b |\<union>| free_variables N |\<union>| {|x|})"
  have "?new |\<notin>| free_variables b |\<union>| free_variables N |\<union>| {|x|}"
    by (rule generate_fresh_variable_fresh)
  then have "?new |\<notin>| free_variables b" "?new |\<notin>| free_variables N" "?new \<noteq> x"
    by auto
  moreover have "substitute (Lambda p b) x N =
        (if p = x then Lambda p b
         else if p |\<in>| free_variables N then Lambda ?new (substitute (substitute b p (Variable ?new)) x N)
         else Lambda p (substitute b x N))"
    by (simp add: substitute.simps(3) Let_def)
  ultimately show ?thesis
    by (simp only: substitute_nameless free_variables_substitute_eq simp_thms)
qed


lemma free_variables_beta:
  "is_Lambda f \<Longrightarrow>
   free_variables (perform_beta_reduction f a) |\<subseteq>| free_variables (Application f a)"
  using free_variables_substitute [of "body f" "parameter f" a]
  by (cases f) (auto simp: perform_beta_reduction_def)

lemma outermost_redex_at:
  "find_leftmost_outermost_redex t path = Some info \<Longrightarrow>
   is_Lambda (redex_function info) \<and>
   (\<exists>rest. redex_path info = path @ rest \<and>
      subterm_at t rest = Some (Application (redex_function info) (redex_argument info)))"
proof (induction t arbitrary: path)
  case (Variable v)
  then show ?case by simp
next
  case (Lambda p b)
  from Lambda.prems have "find_leftmost_outermost_redex b (path @ [Body]) = Some info" by simp
  from Lambda.IH [OF this] obtain rest where "is_Lambda (redex_function info)"
    and "redex_path info = path @ Body # rest"
    and "subterm_at (Lambda p b) (Body # rest)
           = Some (Application (redex_function info) (redex_argument info))"
    by auto
  then show ?case by blast
next
  case (Application f a)
  show ?case
  proof (cases "is_Lambda f")
    case True
    with Application.prems have "redex_path info = path @ []" "redex_function info = f"
      "redex_argument info = a" by auto
    with True show ?thesis by (metis subterm_at.simps(1))
  next
    case notlam: False
    show ?thesis
    proof (cases "find_leftmost_outermost_redex f (path @ [Function])")
      case (Some func_redex)
      with notlam Application.prems
      have "find_leftmost_outermost_redex f (path @ [Function]) = Some info" by simp
      from Application.IH(1) [OF this] obtain rest where "is_Lambda (redex_function info)"
        and "redex_path info = path @ Function # rest"
        and "subterm_at (Application f a) (Function # rest)
               = Some (Application (redex_function info) (redex_argument info))"
        by auto
      then show ?thesis by blast
    next
      case None
      with notlam Application.prems
      have "find_leftmost_outermost_redex a (path @ [Argument]) = Some info" by simp
      from Application.IH(2) [OF this] obtain rest where "is_Lambda (redex_function info)"
        and "redex_path info = path @ Argument # rest"
        and "subterm_at (Application f a) (Argument # rest)
               = Some (Application (redex_function info) (redex_argument info))"
        by auto
      then show ?thesis by blast
    qed
  qed
qed

lemma innermost_redex_at:
  "find_leftmost_innermost_redex t path = Some info \<Longrightarrow>
   is_Lambda (redex_function info) \<and>
   (\<exists>rest. redex_path info = path @ rest \<and>
      subterm_at t rest = Some (Application (redex_function info) (redex_argument info)))"
proof (induction t arbitrary: path)
  case (Variable v)
  then show ?case by simp
next
  case (Lambda p b)
  from Lambda.prems have "find_leftmost_innermost_redex b (path @ [Body]) = Some info" by simp
  from Lambda.IH [OF this] obtain rest where "is_Lambda (redex_function info)"
    and "redex_path info = path @ Body # rest"
    and "subterm_at (Lambda p b) (Body # rest)
           = Some (Application (redex_function info) (redex_argument info))"
    by auto
  then show ?case by blast
next
  case (Application f a)
  show ?case
  proof (cases "find_leftmost_innermost_redex f (path @ [Function])")
    case (Some func_redex)
    with Application.prems
    have "find_leftmost_innermost_redex f (path @ [Function]) = Some info" by simp
    from Application.IH(1) [OF this] obtain rest where "is_Lambda (redex_function info)"
      and "redex_path info = path @ Function # rest"
      and "subterm_at (Application f a) (Function # rest)
             = Some (Application (redex_function info) (redex_argument info))"
      by auto
    then show ?thesis by blast
  next
    case nof: None
    show ?thesis
    proof (cases "find_leftmost_innermost_redex a (path @ [Argument])")
      case (Some arg_redex)
      with nof Application.prems
      have "find_leftmost_innermost_redex a (path @ [Argument]) = Some info" by simp
      from Application.IH(2) [OF this] obtain rest where "is_Lambda (redex_function info)"
        and "redex_path info = path @ Argument # rest"
        and "subterm_at (Application f a) (Argument # rest)
               = Some (Application (redex_function info) (redex_argument info))"
        by auto
      then show ?thesis by blast
    next
      case None
      with nof Application.prems have "is_Lambda f" "redex_path info = path @ []"
        "redex_function info = f" "redex_argument info = a"
        by (auto split: if_splits)
      then show ?thesis by (metis subterm_at.simps(1))
    qed
  qed
qed

lemma find_redex_at:
  assumes "find_redex strategy t = Some info"
  shows "is_Lambda (redex_function info) \<and>
     subterm_at t (redex_path info)
       = Some (Application (redex_function info) (redex_argument info))"
proof -
  from assms have "find_leftmost_outermost_redex t [] = Some info
      \<or> find_leftmost_innermost_redex t [] = Some info"
    by (cases strategy) simp_all
  then show ?thesis
    using outermost_redex_at [of t "[]" info] innermost_redex_at [of t "[]" info] by auto
qed

lemma reduce_redex_replace:
  "reduce_redex t info = replace_at_path t (redex_path info)
      (\<lambda>app. perform_beta_reduction (redex_function info) (redex_argument info))"
  by (cases "redex_path info") (simp_all add: reduce_redex_def)

lemma replace_at_path_free_variables:
  "subterm_at t rest = Some u \<Longrightarrow> free_variables (replacer u) |\<subseteq>| free_variables u \<Longrightarrow>
   free_variables (replace_at_path t rest replacer) |\<subseteq>| free_variables t"
  by (induction t rest arbitrary: u rule: subterm_at.induct) auto


lemma free_variables_reduce_redex:
  assumes "find_redex strategy t = Some info"
  shows "free_variables (reduce_redex t info) |\<subseteq>| free_variables t"
proof -
  from find_redex_at [OF assms] have lam: "is_Lambda (redex_function info)"
    and at: "subterm_at t (redex_path info)
       = Some (Application (redex_function info) (redex_argument info))"
    by simp_all
  show ?thesis
    unfolding reduce_redex_replace
    by (rule replace_at_path_free_variables [OF at]) (rule free_variables_beta [OF lam])
qed

subsection \<open>Names\<close>









subsection \<open>The reduction loop\<close>

lemma reduce_loop_bounds:
  "reduce_loop strategy max_steps t n steps = (t', n', steps') \<Longrightarrow>
   n \<le> n' \<and> n' \<le> max n max_steps \<and> int (length steps') = int (length steps) + (n' - n)"
proof (induction strategy max_steps t n steps rule: reduce_loop.induct)
  case (1 strategy max_steps current_term step_count steps)
  show ?case
  proof (cases "step_count < max_steps")
    case False
    with "1.prems" show ?thesis by (simp add: reduce_loop.simps)
  next
    case lt: True
    show ?thesis
    proof (cases "find_redex strategy current_term")
      case None
      with lt "1.prems" show ?thesis by (simp add: reduce_loop.simps)
    next
      case (Some info)
      define new_term where "new_term = reduce_redex current_term info"
      define new_steps where "new_steps = steps @
                   [\<lparr>step = step_count + 1, step_term = str_term new_term,
                     action = asc ''beta_reduction'', redex = Some info,
                     step_free_variables = free_variables new_term,
                     step_bound_variables = bound_variables new_term\<rparr>]"
      show ?thesis
      proof (cases "stagnated (step_count + 1) new_steps")
        case True
        with lt Some "1.prems" show ?thesis
          by (auto simp add: reduce_loop.simps [of strategy max_steps current_term] Let_def
              new_steps_def new_term_def)
      next
        case False
        with lt Some "1.prems"
        have "reduce_loop strategy max_steps new_term (step_count + 1) new_steps = (t', n', steps')"
          by (simp add: reduce_loop.simps [of strategy max_steps current_term] Let_def
              new_steps_def new_term_def)
        from "1.IH" [OF lt Some new_term_def refl new_steps_def False this] lt
        show ?thesis by (simp add: new_steps_def)
      qed
    qed
  qed
qed

lemma reduce_loop_exit:
  "reduce_loop strategy max_steps t n steps = (t', n', steps') \<Longrightarrow>
   max_steps \<le> n' \<or> find_redex strategy t' = None \<or> stagnated n' steps'"
proof (induction strategy max_steps t n steps rule: reduce_loop.induct)
  case (1 strategy max_steps current_term step_count steps)
  show ?case
  proof (cases "step_count < max_steps")
    case False
    with "1.prems" show ?thesis by (simp add: reduce_loop.simps)
  next
    case lt: True
    show ?thesis
    proof (cases "find_redex strategy current_term")
      case None
      with lt "1.prems" show ?thesis by (auto simp add: reduce_loop.simps)
    next
      case (Some info)
      define new_term where "new_term = reduce_redex current_term info"
      define new_steps where "new_steps = steps @
                   [\<lparr>step = step_count + 1, step_term = str_term new_term,
                     action = asc ''beta_reduction'', redex = Some info,
                     step_free_variables = free_variables new_term,
                     step_bound_variables = bound_variables new_term\<rparr>]"
      show ?thesis
      proof (cases "stagnated (step_count + 1) new_steps")
        case True
        with lt Some "1.prems" show ?thesis
          by (auto simp add: reduce_loop.simps [of strategy max_steps current_term] Let_def
              new_steps_def new_term_def)
      next
        case False
        with lt Some "1.prems"
        have "reduce_loop strategy max_steps new_term (step_count + 1) new_steps = (t', n', steps')"
          by (simp add: reduce_loop.simps [of strategy max_steps current_term] Let_def
              new_steps_def new_term_def)
        from "1.IH" [OF lt Some new_term_def refl new_steps_def False this]
        show ?thesis .
      qed
    qed
  qed
qed

lemma reduce_loop_free_variables:
  "reduce_loop strategy max_steps t n steps = (t', n', steps') \<Longrightarrow>
   free_variables t |\<subseteq>| A \<Longrightarrow>
   (\<forall>st \<in> set steps. step_free_variables st |\<subseteq>| A) \<Longrightarrow>
   free_variables t' |\<subseteq>| A \<and> (\<forall>st \<in> set steps'. step_free_variables st |\<subseteq>| A)"
proof (induction strategy max_steps t n steps rule: reduce_loop.induct)
  case (1 strategy max_steps current_term step_count steps)
  show ?case
  proof (cases "step_count < max_steps")
    case False
    with "1.prems" show ?thesis by (simp add: reduce_loop.simps)
  next
    case lt: True
    show ?thesis
    proof (cases "find_redex strategy current_term")
      case None
      with lt "1.prems" show ?thesis by (simp add: reduce_loop.simps)
    next
      case (Some info)
      define new_term where "new_term = reduce_redex current_term info"
      define new_steps where "new_steps = steps @
                   [\<lparr>step = step_count + 1, step_term = str_term new_term,
                     action = asc ''beta_reduction'', redex = Some info,
                     step_free_variables = free_variables new_term,
                     step_bound_variables = bound_variables new_term\<rparr>]"
      have fv: "free_variables new_term |\<subseteq>| A"
        using free_variables_reduce_redex [OF Some] "1.prems"(2) by (auto simp: new_term_def)
      with "1.prems"(3) have all: "\<forall>st \<in> set new_steps. step_free_variables st |\<subseteq>| A"
        by (simp add: new_steps_def)
      show ?thesis
      proof (cases "stagnated (step_count + 1) new_steps")
        case True
        with lt Some "1.prems"(1) have "t' = new_term" "steps' = new_steps"
          by (auto simp add: reduce_loop.simps [of strategy max_steps current_term] Let_def
              new_steps_def new_term_def)
        with fv all show ?thesis by simp
      next
        case False
        with lt Some "1.prems"(1)
        have "reduce_loop strategy max_steps new_term (step_count + 1) new_steps = (t', n', steps')"
          by (simp add: reduce_loop.simps [of strategy max_steps current_term] Let_def
              new_steps_def new_term_def)
        from "1.IH" [OF lt Some new_term_def refl new_steps_def False this fv all]
        show ?thesis .
      qed
    qed
  qed
qed

lemma reduce_loop_of_reduce:
  obtains t' where "reduce_loop strategy max_steps t 0
            [\<lparr>step = 0, step_term = str_term t, action = asc ''initial'', redex = None,
              step_free_variables = free_variables t,
              step_bound_variables = bound_variables t\<rparr>]
         = (t', steps_taken (reduce strategy t max_steps), reduction_steps (reduce strategy t max_steps))"
    and "is_normal_form (reduce strategy t max_steps) = (find_redex strategy t' = None)"
    and "max_steps_reached (reduce strategy t max_steps) = (max_steps \<le> steps_taken (reduce strategy t max_steps))"
proof -
  obtain t' n' steps' where "reduce_loop strategy max_steps t 0
            [\<lparr>step = 0, step_term = str_term t, action = asc ''initial'', redex = None,
              step_free_variables = free_variables t,
              step_bound_variables = bound_variables t\<rparr>] = (t', n', steps')"
    using prod_cases3 by blast
  then show ?thesis
    by (intro that [of t']) (simp_all add: reduce_def)
qed



text \<open>
  The identity applied to \<open>y\<close> under \<open>max_steps = 1\<close>: the only step reaches the
  normal form \<open>y\<close>, and \<open>max_steps_reached\<close> is set all the same; so it is for a
  variable under \<open>max_steps = 0\<close>. The self-application under \<open>max_steps = 3\<close> is
  stopped by the stagnation guard at its third step, and the flag is set as well.
\<close>

theorem max_steps_reached_counterexample:
  "max_steps_reached (reduce NORMAL_ORDER identity_applied 1)
   \<and> is_normal_form (reduce NORMAL_ORDER identity_applied 1)
   \<and> final_term (reduce NORMAL_ORDER identity_applied 1) = asc ''y''
   \<and> max_steps_reached (reduce NORMAL_ORDER (Variable (asc ''y'')) 0)
   \<and> is_normal_form (reduce NORMAL_ORDER (Variable (asc ''y'')) 0)
   \<and> max_steps_reached (reduce NORMAL_ORDER Omega 3)
   \<and> stagnated (steps_taken (reduce NORMAL_ORDER Omega 3))
        (reduction_steps (reduce NORMAL_ORDER Omega 3))"
  by (simp add: identity_applied_def Omega_def evaluation_simps)

text \<open>
  Claim C5, as the code has it. \<open>max_steps_reached\<close> is true exactly when the number of
  steps taken has reached \<open>max_steps\<close>, that is when the whole budget of steps was used
  (\<open>steps_taken = max 0 max_steps\<close>), whether or not the final term is a normal form.
  When it is false, the run ended because no redex was left or because the stagnation
  guard fired.
\<close>

theorem max_steps_reached_iff:
  "(max_steps_reached (reduce strategy t max_steps)
      \<longleftrightarrow> max_steps \<le> steps_taken (reduce strategy t max_steps))
   \<and> (max_steps_reached (reduce strategy t max_steps)
      \<longleftrightarrow> steps_taken (reduce strategy t max_steps) = max 0 max_steps)
   \<and> (max_steps_reached (reduce strategy t max_steps)
      \<or> is_normal_form (reduce strategy t max_steps)
      \<or> stagnated (steps_taken (reduce strategy t max_steps))
            (reduction_steps (reduce strategy t max_steps)))"
proof -
  obtain t' where loop: "reduce_loop strategy max_steps t 0
            [\<lparr>step = 0, step_term = str_term t, action = asc ''initial'', redex = None,
              step_free_variables = free_variables t,
              step_bound_variables = bound_variables t\<rparr>]
         = (t', steps_taken (reduce strategy t max_steps), reduction_steps (reduce strategy t max_steps))"
    and nf: "is_normal_form (reduce strategy t max_steps) = (find_redex strategy t' = None)"
    and flag: "max_steps_reached (reduce strategy t max_steps) = (max_steps \<le> steps_taken (reduce strategy t max_steps))"
    by (rule reduce_loop_of_reduce)
  from reduce_loop_bounds [OF loop] reduce_loop_exit [OF loop] show ?thesis
    unfolding nf flag by auto
qed


text \<open>
  Claim C10. Reduction never introduces a free variable: the free variables recorded for
  every entry of the trace of \<open>reduce\<close> are free variables of the input term, and the
  free variables of \<open>substitute M x N\<close> are among those of \<open>M\<close> other than \<open>x\<close> and
  those of \<open>N\<close>.
\<close>

theorem reduce_free_variables:
  "(\<forall>st \<in> set (reduction_steps (reduce strategy t max_steps)).
       step_free_variables st |\<subseteq>| free_variables t)
   \<and> free_variables (substitute M x N) |\<subseteq>| (free_variables M |-| {|x|}) |\<union>| free_variables N"
proof -
  obtain t' where loop: "reduce_loop strategy max_steps t 0
            [\<lparr>step = 0, step_term = str_term t, action = asc ''initial'', redex = None,
              step_free_variables = free_variables t,
              step_bound_variables = bound_variables t\<rparr>]
         = (t', steps_taken (reduce strategy t max_steps), reduction_steps (reduce strategy t max_steps))"
    by (rule reduce_loop_of_reduce)
  have "\<forall>st \<in> set (reduction_steps (reduce strategy t max_steps)).
       step_free_variables st |\<subseteq>| free_variables t"
    using reduce_loop_free_variables [OF loop, of "free_variables t"] by simp
  with free_variables_substitute [of M x N] show ?thesis by simp
qed


theorem reduce_free_variables_witness:
  "step_free_variables (last (reduction_steps (reduce NORMAL_ORDER
      (Application (Lambda (asc ''x'') (Variable (asc ''x''))) (Variable (asc ''y''))) 10)))
    |\<subseteq>| free_variables
      (Application (Lambda (asc ''x'') (Variable (asc ''x''))) (Variable (asc ''y'')))
   \<and> length (reduction_steps (reduce NORMAL_ORDER
      (Application (Lambda (asc ''x'') (Variable (asc ''x''))) (Variable (asc ''y''))) 10)) = 2"
proof -
  let ?t = "Application (Lambda (asc ''x'') (Variable (asc ''x''))) (Variable (asc ''y''))"
  have len: "length (reduction_steps (reduce NORMAL_ORDER ?t 10)) = 2"
    by (simp add: reduce_def reduce_loop.simps reduce_redex_def perform_beta_reduction_def
      stagnated_def Let_def asc_def lambda_glyph_def List.card_set)
  then have "reduction_steps (reduce NORMAL_ORDER ?t 10) \<noteq> []" by auto
  then have "last (reduction_steps (reduce NORMAL_ORDER ?t 10))
      \<in> set (reduction_steps (reduce NORMAL_ORDER ?t 10))"
    by (rule last_in_set)
  with reduce_free_variables [of NORMAL_ORDER ?t 10] len show ?thesis by blast
qed


section \<open>Properties of the parser and reducer of correct\_lambda\_parser.py\<close>




lemma parse_constant: "parse constant_text = Inr constant_term"
  by (simp add: constant_text_def constant_term_def evaluation_simps)

text \<open>
  Claim C6. \<open>(\x.\y.x) a b\<close> parses to the left-nested application of the abstraction
  to \<open>a\<close> and then to \<open>b\<close>, and \<open>CorrectBetaReducer.reduce\<close> in normal order, under
  any bound of at least two steps and from any state of the fresh-name counter, ends with
  the final term \<open>a\<close> after exactly two steps, in normal form.
\<close>

theorem constant_reduces_to_a:
  "parse constant_text = Inr constant_term
   \<and> (2 \<le> max_steps \<longrightarrow>
        correct_final_term (fst (correct_reduce NORMAL_ORDER constant_term max_steps c)) = asc ''a''
      \<and> correct_steps (fst (correct_reduce NORMAL_ORDER constant_term max_steps c)) = 2
      \<and> correct_is_normal_form (fst (correct_reduce NORMAL_ORDER constant_term max_steps c)))"
  by (simp add: parse_constant) (simp add: constant_term_def evaluation_simps)

theorem constant_reduces_to_a_witness:
  "(2::int) \<le> 10
   \<and> correct_final_term (fst (correct_reduce NORMAL_ORDER constant_term 10 0)) = asc ''a''
   \<and> correct_steps (fst (correct_reduce NORMAL_ORDER constant_term 10 0)) = 2
   \<and> correct_is_normal_form (fst (correct_reduce NORMAL_ORDER constant_term 10 0))"
  using constant_reduces_to_a [of 10 0] by simp

text \<open>
  Claim C3 asks that under the applicative order every step contracts the
  leftmost-innermost redex. At \<open>(\x.a) ((\y.y) z)\<close> the search of
  \<open>_find_leftmost_innermost_redex\<close> returns the inner redex \<open>(\y.y) z\<close>, and the step
  contracts the outer one: \<open>_beta_reduce\<close> does not read the redex it is given and
  rewrites the first redex it meets from the root. The run takes one step, to \<open>a\<close>,
  where the contraction of the inner redex would give \<open>(\x.a) z\<close> first.
\<close>

theorem applicative_order_contracts_outermost:
  "correct_find_redex APPLICATIVE_ORDER applicative_example =
      Some \<lparr>correct_redex_type = asc ''beta_redex'',
            correct_redex_function = [backslash] @ asc ''y.y'',
            correct_redex_argument = asc ''z'',
            correct_redex_parameter = asc ''y'',
            correct_redex_body = asc ''y''\<rparr>
   \<and> correct_reduce_redex applicative_example
        (the (correct_find_redex APPLICATIVE_ORDER applicative_example)) c
       = (Variable (asc ''a''), c)
   \<and> correct_steps (fst (correct_reduce APPLICATIVE_ORDER applicative_example 10 c)) = 1
   \<and> map step_term (correct_reduction_steps
         (fst (correct_reduce APPLICATIVE_ORDER applicative_example 10 c)))
       = [asc ''('' @ [backslash] @ asc ''x.a ('' @ [backslash] @ asc ''y.y z))'', asc ''a'']"
  by (simp add: applicative_example_def evaluation_simps)


section \<open>Properties of the parser of complete\_beta\_reduction.py\<close>

text \<open>
  Claim C7 asks that printing a parsed term and parsing the print gives the term back.
  \<open>LambdaParser\<close> parses \<open>(\<lambda>x.x)y\<close> to the application of the identity to \<open>y\<close>; its
  print is \<open>\<lambda>x.x y\<close>, since \<open>Application.__str__\<close> puts no parentheses around an
  abstraction in function position, and the parser, which drops the space, reads the
  print as the abstraction \<open>\<lambda>x.xy\<close> over the single variable \<open>xy\<close>. Likewise
  \<open>x(y)\<close> parses to the application of \<open>x\<close> to \<open>y\<close>, prints as \<open>x y\<close> and is read
  back as the variable \<open>xy\<close>.
\<close>

theorem round_trip_fails:
  "lp_parse identity_applied_text = Inr identity_applied
   \<and> str_term identity_applied = [lambda_glyph] @ asc ''x.x y''
   \<and> lp_parse (str_term identity_applied) = Inr (Lambda (asc ''x'') (Variable (asc ''xy'')))
   \<and> lp_parse (asc ''x(y)'') = Inr (Application (Variable (asc ''x'')) (Variable (asc ''y'')))
   \<and> str_term (Application (Variable (asc ''x'')) (Variable (asc ''y''))) = asc ''x y''
   \<and> lp_parse (asc ''x y'') = Inr (Variable (asc ''xy''))"
  by (simp add: identity_applied_text_def identity_applied_def evaluation_simps)


section \<open>Names of variables\<close>





lemma str_isalpha_identifier: "str_isalpha s \<Longrightarrow> is_identifier s"
  by (auto simp: str_isalpha_def is_identifier_def isalnum_def list_all_iff)

lemma all_names_mono: "(\<And>s. P s \<Longrightarrow> Q s) \<Longrightarrow> all_names P t \<Longrightarrow> all_names Q t"
  by (induction t) auto











section \<open>The combinator classifiers\<close>

lemmas classifier_simps =
  identify_combinator_def combinators_def correct_identify_combinator_def
  correct_combinators_def remove_spaces_def terms_equivalent_def
  asc_def lambda_glyph_def backslash_def Let_def

lemma first_equivalent_map_of:
  "first_equivalent term_str items
     = map_of (map (\<lambda>(pattern, nm). (remove_spaces pattern, nm)) items) term_str"
  by (induction items) (auto simp: terms_equivalent_def)

lemma correct_first_equivalent_map_of:
  "correct_first_equivalent term_str items
     = map_of (map (\<lambda>(nm, pattern). (remove_spaces pattern, nm)) items) term_str"
  by (induction items) (auto simp: terms_equivalent_def)

text \<open>
  The table of \<open>BetaReducer\<close> has no entry for the combinator \<open>C\<close> and that of
  \<open>CorrectBetaReducer\<close> none for a Church numeral: neither term is given a name, and the
  stripped print of neither is a pattern of the table.
\<close>

theorem classifier_tables_counterexample:
  "identify_combinator flip_combinator = None
   \<and> remove_spaces (str_term flip_combinator)
       \<notin> set (map (\<lambda>(pattern, nm). remove_spaces pattern) combinators)
   \<and> correct_identify_combinator church_two = None
   \<and> remove_spaces (correct_str_term church_two)
       \<notin> set (map (\<lambda>(nm, pattern). remove_spaces pattern) correct_combinators)"
  by (simp add: flip_combinator_def church_two_def classifier_simps)

text \<open>
  Claim C9, as the code has it. Each classifier returns a name exactly when the print of
  the term without its spaces is string-equal to a pattern of its table without its
  spaces, and then the name of that pattern. The table of \<open>BetaReducer\<close> has the nine
  entries I, K, KI, S, B, Y, Church 2, Church 0 and Church 1; that of
  \<open>CorrectBetaReducer\<close> the seven entries I, K, S, Y, B, C and W. The comparison is on
  strings: \<open>\x.x\<close> is the identity for both, \<open>\a.a\<close> for neither.
\<close>

theorem classifier_syntactic:
  "(identify_combinator t = Some nm
      \<longleftrightarrow> (remove_spaces (str_term t), nm)
            \<in> set (map (\<lambda>(pattern, nm). (remove_spaces pattern, nm)) combinators))
   \<and> map snd combinators =
        [asc ''I (Identity)'', asc ''K (Constant)'', asc ''KI (False)'', asc ''S (Substitution)'',
         asc ''B (Composition)'', asc ''Y (Fixed-point)'', asc ''Church 2'', asc ''Church 0'',
         asc ''Church 1'']
   \<and> identify_combinator (Lambda (asc ''x'') (Variable (asc ''x''))) = Some (asc ''I (Identity)'')
   \<and> identify_combinator (Lambda (asc ''a'') (Variable (asc ''a''))) = None
   \<and> (correct_identify_combinator t = Some nm
      \<longleftrightarrow> (remove_spaces (correct_str_term t), nm)
            \<in> set (map (\<lambda>(nm, pattern). (remove_spaces pattern, nm)) correct_combinators))
   \<and> map fst correct_combinators =
        [asc ''I'', asc ''K'', asc ''S'', asc ''Y'', asc ''B'', asc ''C'', asc ''W'']
   \<and> correct_identify_combinator (Lambda (asc ''x'') (Variable (asc ''x''))) = Some (asc ''I'')
   \<and> correct_identify_combinator (Lambda (asc ''a'') (Variable (asc ''a''))) = None"
proof -
  have d1: "distinct (map fst (map (\<lambda>(pattern, nm). (remove_spaces pattern, nm)) combinators))"
    by (simp add: classifier_simps)
  have d2: "distinct (map fst (map (\<lambda>(nm, pattern). (remove_spaces pattern, nm)) correct_combinators))"
    by (simp add: classifier_simps)
  have "identify_combinator t = Some nm
      \<longleftrightarrow> (remove_spaces (str_term t), nm)
            \<in> set (map (\<lambda>(pattern, nm). (remove_spaces pattern, nm)) combinators)"
    unfolding identify_combinator_def first_equivalent_map_of
    using map_of_eq_Some_iff [OF d1] by blast
  moreover have "correct_identify_combinator t = Some nm
      \<longleftrightarrow> (remove_spaces (correct_str_term t), nm)
            \<in> set (map (\<lambda>(nm, pattern). (remove_spaces pattern, nm)) correct_combinators)"
    unfolding correct_identify_combinator_def correct_first_equivalent_map_of
    using map_of_eq_Some_iff [OF d2] by blast
  moreover have "map snd combinators =
        [asc ''I (Identity)'', asc ''K (Constant)'', asc ''KI (False)'', asc ''S (Substitution)'',
         asc ''B (Composition)'', asc ''Y (Fixed-point)'', asc ''Church 2'', asc ''Church 0'',
         asc ''Church 1'']"
    by (simp add: combinators_def)
  moreover have "map fst correct_combinators =
        [asc ''I'', asc ''K'', asc ''S'', asc ''Y'', asc ''B'', asc ''C'', asc ''W'']"
    by (simp add: correct_combinators_def)
  moreover have "identify_combinator (Lambda (asc ''x'') (Variable (asc ''x''))) = Some (asc ''I (Identity)'')"
    "identify_combinator (Lambda (asc ''a'') (Variable (asc ''a''))) = None"
    "correct_identify_combinator (Lambda (asc ''x'') (Variable (asc ''x''))) = Some (asc ''I'')"
    "correct_identify_combinator (Lambda (asc ''a'') (Variable (asc ''a''))) = None"
    by (simp_all add: classifier_simps)
  ultimately show ?thesis by blast
qed

end
